theory Spec2Isabelle
  imports Main "HOL-Library.Word" "HOL-Library.Sublist"
begin

section \<open>JavaScript strings\<close>

text \<open>
  A JavaScript string is a sequence of 16-bit code units. The script reads its inputs
  with \<^verbatim>\<open>fs.readFileSync(path, 'utf-8')\<close>, so the strings below are the decoded
  contents. \<open>lit\<close> turns an ASCII literal of the source into its code units.
\<close>

type_synonym jschar = "16 word"
type_synonym jsstring = "jschar list"

definition lit :: "string \<Rightarrow> jsstring" where
  "lit s = map (\<lambda>c. of_nat (of_char c)) s"

definition nl :: jsstring where
  "nl = [0x0A]"

definition bt :: jsstring where
  \<comment> \<open>the backtick, written with a backslash inside the template literals\<close>
  "bt = [0x60]"

definition sq :: jsstring where
  \<comment> \<open>the single quote\<close>
  "sq = [0x27]"

definition warn :: jsstring where
  \<comment> \<open>the warning sign of the banners: U+26A0 followed by U+FE0F\<close>
  "warn = [0x26A0, 0xFE0F]"

text \<open>\<^verbatim>\<open>s.indexOf(t)\<close>: the index of the first occurrence of \<open>t\<close>, or \<open>-1\<close>.\<close>

fun find_index :: "'a list \<Rightarrow> 'a list \<Rightarrow> nat option" where
  "find_index t [] = (if t = [] then Some 0 else None)"
| "find_index t (c # cs) =
     (if prefix t (c # cs) then Some 0
      else (case find_index t cs of None \<Rightarrow> None | Some k \<Rightarrow> Some (Suc k)))"

definition indexOf :: "'a list \<Rightarrow> 'a list \<Rightarrow> int" where
  "indexOf s t = (case find_index t s of None \<Rightarrow> - 1 | Some k \<Rightarrow> int k)"

text \<open>
  \<^verbatim>\<open>s.substring(a, b)\<close>: both arguments are clamped to \<open>[0, length]\<close> and swapped
  when the first is the larger one.
\<close>

definition substring :: "'a list \<Rightarrow> int \<Rightarrow> int \<Rightarrow> 'a list" where
  "substring s a b =
     (let len = int (length s);
          intStart = min (max a 0) len;
          intEnd = min (max b 0) len;
          from = min intStart intEnd;
          to = max intStart intEnd
      in take (nat (to - from)) (drop (nat from) s))"

text \<open>
  \<^verbatim>\<open>s.trim()\<close> removes the code units of ECMAScript's WhiteSpace and
  LineTerminator productions from both ends.
\<close>

definition is_ws :: "jschar \<Rightarrow> bool" where
  "is_ws c \<longleftrightarrow>
     c = 0x09 \<or> c = 0x0A \<or> c = 0x0B \<or> c = 0x0C \<or> c = 0x0D \<or> c = 0x20 \<or> c = 0xA0 \<or>
     c = 0x1680 \<or> (0x2000 \<le> c \<and> c \<le> 0x200A) \<or> c = 0x2028 \<or> c = 0x2029 \<or>
     c = 0x202F \<or> c = 0x205F \<or> c = 0x3000 \<or> c = 0xFEFF"

definition trim :: "jsstring \<Rightarrow> jsstring" where
  "trim s = rev (dropWhile is_ws (rev (dropWhile is_ws s)))"

definition startsWith :: "'a list \<Rightarrow> 'a list \<Rightarrow> bool" where
  "startsWith s p = prefix p s"

text \<open>
  \<^verbatim>\<open>s.split(sep)\<close> for a separator of one code unit (the script splits at a newline
  and at \<open>T\<close>). The result is never empty (\<open>split_not_Nil\<close> below), so the first
  branch of the inner \<open>case\<close> is never taken.
\<close>

fun split :: "'a list \<Rightarrow> 'a \<Rightarrow> 'a list list" where
  "split [] sep = [[]]"
| "split (c # cs) sep =
     (if c = sep then [] # split cs sep
      else (case split cs sep of [] \<Rightarrow> [[c]] | l # ls \<Rightarrow> (c # l) # ls))"

text \<open>\<^verbatim>\<open>xs.join(sep)\<close>.\<close>

fun join :: "'a list list \<Rightarrow> 'a list \<Rightarrow> 'a list" where
  "join [] sep = []"
| "join [x] sep = x"
| "join (x # y # ys) sep = x @ sep @ join (y # ys) sep"

text \<open>The lines of a template literal, each followed by its newline.\<close>

definition unlines :: "jsstring list \<Rightarrow> jsstring" where
  "unlines ls = concat (map (\<lambda>l. l @ nl) ls)"

section \<open>The marker patterns\<close>

definition SYNC_START :: jsstring where
  "SYNC_START = lit ''<!-- SYNC_START -->''"

definition SYNC_END :: jsstring where
  "SYNC_END = lit ''<!-- SYNC_END -->''"

definition INCLUDE_START :: jsstring where
  "INCLUDE_START = lit ''<!-- INCLUDE_RULES:START -->''"

definition INCLUDE_END :: jsstring where
  "INCLUDE_END = lit ''<!-- INCLUDE_RULES:END -->''"

text \<open>
  \<^verbatim>\<open>s.replace(/<!-- INCLUDE_RULES:START -->[\s\S]*?<!-- INCLUDE_RULES:END -->/g, '')\<close>.
  The scan goes from left to right. Where the start token stands and an end token
  follows it, the lazy \<^verbatim>\<open>[\s\S]*?\<close> stops at the first such end token, the match is
  deleted and the scan goes on behind it; elsewhere the code unit is kept.
\<close>

function removeIncludes :: "jsstring \<Rightarrow> jsstring" where
  "removeIncludes [] = []"
| "removeIncludes (c # cs) =
     (if prefix INCLUDE_START (c # cs) then
        (case find_index INCLUDE_END (drop (length INCLUDE_START) (c # cs)) of
           Some k \<Rightarrow>
             removeIncludes
               (drop (length INCLUDE_START + k + length INCLUDE_END) (c # cs))
         | None \<Rightarrow> c # removeIncludes cs)
      else c # removeIncludes cs)"
  by pat_completeness auto
termination
  by (relation "measure length") (auto simp: INCLUDE_START_def lit_def)

section \<open>extractCoreStandards\<close>

datatype error =
    MalformedSourceDocument
    \<comment> \<open>\<^verbatim>\<open>Error('SYNC_START or SYNC_END markers not found in AI_INSTRUCTIONS.md')\<close>\<close>
  | TypeError
    \<comment> \<open>a method called on \<^verbatim>\<open>null\<close>\<close>

definition extractCoreStandards :: "jsstring \<Rightarrow> error + jsstring" where
  "extractCoreStandards content =
     (let syncStart = indexOf content SYNC_START;
          syncEnd = indexOf content SYNC_END
      in if syncStart = - 1 \<or> syncEnd = - 1 then Inl MalformedSourceDocument
         else
           (let coreStandards =
                  trim (substring content (syncStart + int (length SYNC_START)) syncEnd)
            in Inr (trim (removeIncludes coreStandards))))"

section \<open>extractMetadata\<close>

text \<open>
  \<^verbatim>\<open>new Date().toISOString()\<close>. The reading of the clock is taken as a broken-down
  UTC time; the method prints it as \<^verbatim>\<open>YYYY-MM-DDTHH:mm:ss.sssZ\<close>, and with a sign and
  six digits for a year outside 0 to 9999.
\<close>

record utc_time =
  year :: int
  month :: nat
  day :: nat
  hours :: nat
  minutes :: nat
  seconds :: nat
  millis :: nat

definition digit :: "nat \<Rightarrow> jschar" where
  "digit n = of_nat (48 + n mod 10)"

fun pad :: "nat \<Rightarrow> nat \<Rightarrow> jsstring" where
  "pad 0 n = []"
| "pad (Suc w) n = pad w (n div 10) @ [digit n]"

definition toISOString :: "utc_time \<Rightarrow> jsstring" where
  "toISOString t =
     (if 0 \<le> year t \<and> year t \<le> 9999 then pad 4 (nat (year t))
      else (if year t < 0 then lit ''-'' else lit ''+'') @ pad 6 (nat \<bar>year t\<bar>))
     @ lit ''-'' @ pad 2 (month t) @ lit ''-'' @ pad 2 (day t)
     @ lit ''T'' @ pad 2 (hours t) @ lit '':'' @ pad 2 (minutes t)
     @ lit '':'' @ pad 2 (seconds t) @ lit ''.'' @ pad 3 (millis t) @ lit ''Z''"

text \<open>
  \<^verbatim>\<open>content.match(/PRE([CLASS]+)POST/)\<close> for a literal \<open>pre\<close>, a character class
  and a literal \<open>post\<close>: the leftmost position where \<open>pre\<close> stands, followed by one or
  more code units of the class and then by \<open>post\<close>. The \<^verbatim>\<open>+\<close> is greedy: it takes
  the whole run of class members first and gives code units back one at a time
  (\<open>backtrack\<close>). The result is the capture group, or \<open>None\<close> for \<^verbatim>\<open>null\<close>.
\<close>

fun backtrack :: "nat \<Rightarrow> jsstring \<Rightarrow> jsstring \<Rightarrow> jsstring option" where
  "backtrack 0 rest post = None"
| "backtrack (Suc k) rest post =
     (if prefix post (drop (Suc k) rest) then Some (take (Suc k) rest)
      else backtrack k rest post)"

definition match_at ::
  "jsstring \<Rightarrow> (jschar \<Rightarrow> bool) \<Rightarrow> jsstring \<Rightarrow> jsstring \<Rightarrow> jsstring option" where
  "match_at pre cls post s =
     (if prefix pre s then
        (let rest = drop (length pre) s
         in backtrack (length (takeWhile cls rest)) rest post)
      else None)"

fun match_group ::
  "jsstring \<Rightarrow> (jschar \<Rightarrow> bool) \<Rightarrow> jsstring \<Rightarrow> jsstring \<Rightarrow> jsstring option" where
  "match_group pre cls post [] = match_at pre cls post []"
| "match_group pre cls post (c # cs) =
     (case match_at pre cls post (c # cs) of
        Some g \<Rightarrow> Some g
      | None \<Rightarrow> match_group pre cls post cs)"

definition is_digit :: "jschar \<Rightarrow> bool" where
  "is_digit c \<longleftrightarrow> 0x30 \<le> c \<and> c \<le> 0x39"

definition version_class :: "jschar \<Rightarrow> bool" where
  \<comment> \<open>\<^verbatim>\<open>[\d.]\<close>\<close>
  "version_class c \<longleftrightarrow> is_digit c \<or> c = 0x2E"

definition date_class :: "jschar \<Rightarrow> bool" where
  \<comment> \<open>\<^verbatim>\<open>[\d-]\<close>\<close>
  "date_class c \<longleftrightarrow> is_digit c \<or> c = 0x2D"

definition VERSION_OPEN :: jsstring where
  "VERSION_OPEN = lit ''<!-- VERSION: ''"

definition LAST_UPDATED_OPEN :: jsstring where
  "LAST_UPDATED_OPEN = lit ''<!-- LAST_UPDATED: ''"

definition COMMENT_CLOSE :: jsstring where
  "COMMENT_CLOSE = lit '' -->''"

record metadata =
  version :: jsstring
  lastUpdated :: jsstring

text \<open>The second argument is the reading of the clock that \<^verbatim>\<open>new Date()\<close> takes.\<close>

definition extractMetadata :: "jsstring \<Rightarrow> utc_time \<Rightarrow> metadata" where
  "extractMetadata content today =
     (let versionMatch = match_group VERSION_OPEN version_class COMMENT_CLOSE content;
          lastUpdatedMatch = match_group LAST_UPDATED_OPEN date_class COMMENT_CLOSE content
      in \<lparr>version = (case versionMatch of Some g \<Rightarrow> g | None \<Rightarrow> lit ''1.0.0''),
          lastUpdated =
            (case lastUpdatedMatch of
               Some g \<Rightarrow> g
             | None \<Rightarrow> (case split (toISOString today) 0x54 of [] \<Rightarrow> [] | d # _ \<Rightarrow> d))\<rparr>)"

section \<open>The topic table\<close>

record rule_info =
  file_name :: jsstring
  name :: jsstring
  key :: jsstring

record rule = rule_info +
  content :: "jsstring option"

definition RULE_FILES :: "rule_info list" where
  "RULE_FILES =
     [\<lparr>file_name = lit ''component-standards.md'', name = lit ''Component Standards'',
        key = lit ''component-standards''\<rparr>,
      \<lparr>file_name = lit ''folder-structure.md'', name = lit ''Folder Structure'',
        key = lit ''folder-structure''\<rparr>,
      \<lparr>file_name = lit ''testing.md'', name = lit ''Testing'', key = lit ''testing''\<rparr>,
      \<lparr>file_name = lit ''routing.md'', name = lit ''Routing'', key = lit ''routing''\<rparr>,
      \<lparr>file_name = lit ''state-management.md'', name = lit ''State Management'',
        key = lit ''state-management''\<rparr>,
      \<lparr>file_name = lit ''api-integration.md'', name = lit ''API Integration'',
        key = lit ''api-integration''\<rparr>,
      \<lparr>file_name = lit ''ai-tool-integration.md'', name = lit ''AI Tool Integration'',
        key = lit ''ai-tool-integration''\<rparr>]"

text \<open>
  The truth value of a string or \<^verbatim>\<open>null\<close>: \<^verbatim>\<open>null\<close> and the empty string are
  falsy.
\<close>

definition truthy :: "jsstring option \<Rightarrow> bool" where
  "truthy v = (case v of None \<Rightarrow> False | Some s \<Rightarrow> s \<noteq> [])"

section \<open>generateMdcContent\<close>

definition frontmatter :: "jsstring \<Rightarrow> jsstring" where
  "frontmatter description =
     unlines
       [lit ''---'',
        lit ''description: '' @ description,
        lit ''globs: '' @ sq @ lit ''*.ts,*.tsx,*.js,*.jsx'' @ sq,
        lit ''alwaysApply: true'',
        lit ''---'',
        []]"

definition generateMdcContent :: "jsstring \<Rightarrow> jsstring \<Rightarrow> jsstring \<Rightarrow> jsstring" where
  "generateMdcContent ruleContent ruleName description =
     (let content0 = trim ruleContent;
          content1 =
            (if startsWith content0 (lit ''#'') then
               (case split content0 0x0A of
                  [] \<Rightarrow> content0
                | l0 # ls \<Rightarrow>
                    if startsWith l0 (lit ''# '') then trim (join ls nl) else content0)
             else content0)
      in frontmatter description @ content1)"

section \<open>The aggregate renderers\<close>

text \<open>
  \<^verbatim>\<open>rules.forEach(rule => { if (rule.content) { content += line(rule) } })\<close>: the
  loop that the three renderers run twice each.
\<close>

fun appendLines :: "(rule \<Rightarrow> jsstring) \<Rightarrow> rule list \<Rightarrow> jsstring \<Rightarrow> jsstring" where
  "appendLines line [] acc = acc"
| "appendLines line (r # rs) acc =
     appendLines line rs (if truthy (content r) then acc @ line r else acc)"

definition aggregateHead :: "jsstring \<Rightarrow> jsstring \<Rightarrow> jsstring \<Rightarrow> jsstring \<Rightarrow> jsstring" where
  "aggregateHead title coreStandards ver now =
     unlines
       [title,
        [],
        lit ''**'' @ warn @ lit '' IMPORTANT: This file is auto-generated from '' @ bt
          @ lit ''AI_INSTRUCTIONS.md'' @ bt @ lit '' and '' @ bt @ lit ''docs/rules/*.md''
          @ bt @ lit ''. Do not edit manually.**'',
        [],
        lit ''**Rules Version:** '' @ ver @ lit ''  '',
        lit ''**Last Updated:** '' @ now,
        [],
        coreStandards,
        [],
        lit ''## Detailed Rules'',
        [],
        lit ''For comprehensive guidelines, refer to the following rule files in '' @ bt
          @ lit ''docs/rules/'' @ bt @ lit '':'',
        []]"

definition aggregateLink :: "'a rule_info_scheme \<Rightarrow> jsstring" where
  "aggregateLink r =
     lit ''- **'' @ name r @ lit ''**: [docs/rules/'' @ file_name r @ lit ''](docs/rules/''
       @ file_name r @ lit '')'' @ nl"

definition aggregateMiddle :: jsstring where
  "aggregateMiddle =
     unlines
       [lit ''- **Full Rules**: [docs/README.md](docs/rules/README.md)'',
        [],
        lit ''## Quick Reference'',
        [],
        lit ''For detailed guidelines with examples and checklists:'',
        []]"

definition aggregatePlain :: "'a rule_info_scheme \<Rightarrow> jsstring" where
  "aggregatePlain r = lit ''- '' @ name r @ lit '': docs/rules/'' @ file_name r @ nl"

definition singleSource :: jsstring where
  "singleSource =
     lit ''For the complete and authoritative rules, always refer to **'' @ bt
       @ lit ''AI_INSTRUCTIONS.md'' @ bt
       @ lit ''** at the project root. This file ensures consistency across all AI tools and IDEs.''"

definition aggregateTail :: jsstring where
  "aggregateTail =
     unlines
       [lit ''- Full Rules: docs/README.md'',
        [],
        lit ''## When in Doubt'',
        [],
        lit ''Read the detailed rules in docs/rules/ directory for comprehensive guidelines, examples, and best practices.'',
        [],
        lit ''## Single Source of Truth'',
        [],
        singleSource]"

text \<open>
  The last argument of the two renderers below is the reading of the clock that
  \<^verbatim>\<open>new Date()\<close> takes in the function's first line.
\<close>

definition generateCopilotInstructions ::
  "jsstring \<Rightarrow> rule list \<Rightarrow> metadata \<Rightarrow> utc_time \<Rightarrow> jsstring" where
  "generateCopilotInstructions coreStandards rules metadata t =
     (let now = toISOString t;
          c0 = aggregateHead (lit ''# GitHub Copilot Instructions'') coreStandards
                 (version metadata) now;
          c1 = appendLines aggregateLink rules c0;
          c2 = c1 @ aggregateMiddle;
          c3 = appendLines aggregatePlain rules c2
      in c3 @ aggregateTail)"

definition generateReplitInstructions ::
  "jsstring \<Rightarrow> rule list \<Rightarrow> metadata \<Rightarrow> utc_time \<Rightarrow> jsstring" where
  "generateReplitInstructions coreStandards rules metadata t =
     (let now = toISOString t;
          c0 = aggregateHead (lit ''# Replit AI Instructions'') coreStandards
                 (version metadata) now;
          c1 = appendLines aggregateLink rules c0;
          c2 = c1 @ aggregateMiddle;
          c3 = appendLines aggregatePlain rules c2
      in c3 @ aggregateTail)"

definition cursorHead :: "jsstring \<Rightarrow> jsstring" where
  "cursorHead coreStandards =
     unlines
       [lit ''---'',
        lit ''description: Project-wide development standards and rules for React TypeScript development'',
        lit ''globs: '' @ sq @ lit ''*.ts,*.tsx,*.js,*.jsx'' @ sq,
        lit ''alwaysApply: true'',
        lit ''---'',
        [],
        lit ''# Project Rules for AI Code Generation'',
        [],
        lit ''**'' @ warn @ lit '' IMPORTANT: This rule aligns with '' @ bt
          @ lit ''AI_INSTRUCTIONS.md'' @ bt @ lit '' as the single source of truth.**'',
        [],
        coreStandards,
        [],
        lit ''## Quick Reference'',
        [],
        lit ''For detailed guidelines with examples and checklists, refer to the individual rule files in this directory:'',
        []]"

definition cursorSee :: "'a rule_info_scheme \<Rightarrow> jsstring" where
  "cursorSee r =
     lit ''- **'' @ name r @ lit ''**: See '' @ bt @ lit ''.cursor/rules/'' @ key r
       @ lit ''.mdc'' @ bt @ nl"

definition cursorMiddle :: jsstring where
  "cursorMiddle =
     unlines
       [[],
        lit ''## Detailed Rules'',
        [],
        lit ''The following individual rule files contain comprehensive guidelines:'',
        []]"

definition cursorFrom :: "'a rule_info_scheme \<Rightarrow> jsstring" where
  "cursorFrom r =
     lit ''- **'' @ name r @ lit ''**: '' @ bt @ lit ''.cursor/rules/'' @ key r
       @ lit ''.mdc'' @ bt @ lit '' (from '' @ bt @ lit ''docs/rules/'' @ file_name r @ bt
       @ lit '')'' @ nl"

definition cursorTail :: jsstring where
  "cursorTail =
     unlines
       [[],
        lit ''## When in Doubt'',
        [],
        lit ''Read the detailed rules in '' @ bt @ lit ''docs/rules/'' @ bt
          @ lit '' directory or the corresponding '' @ bt @ lit ''.cursor/rules/*.mdc'' @ bt
          @ lit '' files for comprehensive guidelines, examples, and best practices.'',
        [],
        lit ''## Single Source of Truth'',
        [],
        singleSource]"

definition generateCursorMainRules :: "jsstring \<Rightarrow> rule list \<Rightarrow> metadata \<Rightarrow> jsstring" where
  "generateCursorMainRules coreStandards rules metadata =
     (let c0 = cursorHead coreStandards;
          c1 = appendLines cursorSee rules c0;
          c2 = c1 @ cursorMiddle;
          c3 = appendLines cursorFrom rules c2
      in c3 @ cursorTail)"

section \<open>The run\<close>

text \<open>
  Paths are written relative to \<^verbatim>\<open>ROOT_DIR\<close>, as \<^verbatim>\<open>path.relative(ROOT_DIR, filePath)\<close>
  prints them. \<^verbatim>\<open>path.join\<close> puts a slash between its arguments; the names of the
  topic table have no segment for it to normalise.
\<close>

definition path_join :: "jsstring \<Rightarrow> jsstring \<Rightarrow> jsstring" where
  "path_join dir f = dir @ lit ''/'' @ f"

definition AI_INSTRUCTIONS_FILE :: jsstring where
  "AI_INSTRUCTIONS_FILE = lit ''AI_INSTRUCTIONS.md''"

definition RULES_DIR :: jsstring where
  "RULES_DIR = path_join (lit ''docs'') (lit ''rules'')"

definition COPILOT_FILE :: jsstring where
  "COPILOT_FILE = path_join (lit ''.github'') (lit ''copilot-instructions.md'')"

definition REPLIT_FILE :: jsstring where
  "REPLIT_FILE = lit ''replit.md''"

definition CURSOR_RULES_DIR :: jsstring where
  "CURSOR_RULES_DIR = path_join (lit ''.cursor'') (lit ''rules'')"

text \<open>
  The file system as the reads see it: the decoded content of the file at a path, or
  \<open>None\<close> where \<^verbatim>\<open>fs.readFileSync\<close> throws. Writing is taken to succeed (the
  script creates the missing directories first), so a run is described by the files it
  writes, in order, and by the lines it prints.
\<close>

type_synonym filesystem = "jsstring \<Rightarrow> jsstring option"

datatype target = Copilot | Replit | CursorMain | CursorIndividual

datatype event =
    Starting
  | ErrorReadingFile jsstring
  | FailedToReadInstructions
  | VersionInfo jsstring jsstring
  | ExtractedCore
  | ReadRule jsstring
  | SkippedRule jsstring
  | LoadedCount nat
  | Generating target
  | Generated jsstring
  | Completed nat
  | ErrorDuringSync error

record run =
  console :: "event list"
  written :: "(jsstring \<times> jsstring) list"

definition log :: "event \<Rightarrow> run \<Rightarrow> run" where
  "log e r = r\<lparr>console := console r @ [e]\<rparr>"

definition readFile :: "filesystem \<Rightarrow> jsstring \<Rightarrow> run \<Rightarrow> jsstring option \<times> run" where
  "readFile fs filePath r =
     (case fs filePath of
        Some s \<Rightarrow> (Some s, r)
      | None \<Rightarrow> (None, log (ErrorReadingFile filePath) r))"

definition writeFile :: "jsstring \<Rightarrow> jsstring \<Rightarrow> run \<Rightarrow> run" where
  "writeFile filePath text r =
     log (Generated filePath) (r\<lparr>written := written r @ [(filePath, text)]\<rparr>)"

text \<open>
  How a call ends: it returns, it calls \<^verbatim>\<open>process.exit\<close>, or it throws.
\<close>

datatype control = Returned | ProcessExit int | Thrown error

text \<open>The loop over the topic table that fills \<^verbatim>\<open>rules\<close>.\<close>

fun loadRules :: "filesystem \<Rightarrow> rule_info list \<Rightarrow> run \<Rightarrow> rule list \<times> run" where
  "loadRules fs [] r = ([], r)"
| "loadRules fs (ruleInfo # rest) r =
     (let rulePath = path_join RULES_DIR (file_name ruleInfo);
          (ruleContent, r1) = readFile fs rulePath r
      in if truthy ruleContent then
           (let (rules, r2) = loadRules fs rest (log (ReadRule (name ruleInfo)) r1)
            in (\<lparr>file_name = file_name ruleInfo, name = name ruleInfo, key = key ruleInfo,
                  content = ruleContent\<rparr> # rules, r2))
         else loadRules fs rest (log (SkippedRule (name ruleInfo)) r1))"

text \<open>
  The last \<^verbatim>\<open>rules.forEach\<close>, which writes one file for each rule. Calling
  \<^verbatim>\<open>trim\<close> on a \<^verbatim>\<open>null\<close> content would throw.
\<close>

fun writeRuleFiles :: "rule list \<Rightarrow> run \<Rightarrow> control \<times> run" where
  "writeRuleFiles [] r = (Returned, r)"
| "writeRuleFiles (rule # rules) r =
     (case content rule of
        None \<Rightarrow> (Thrown TypeError, r)
      | Some ruleContent \<Rightarrow>
          (let description = name rule @ lit '' rules for React TypeScript development'';
               mdcContent = generateMdcContent ruleContent (name rule) description
           in writeRuleFiles rules
                (writeFile (path_join CURSOR_RULES_DIR (key rule @ lit ''.mdc'')) mdcContent r)))"

text \<open>
  The three readings of the clock of a run: in \<^verbatim>\<open>extractMetadata\<close> and in the two
  renderers that print a timestamp.
\<close>

record clock =
  t_metadata :: utc_time
  t_copilot :: utc_time
  t_replit :: utc_time

text \<open>
  \<^verbatim>\<open>syncRules\<close>, with the topic table as a parameter. \<^verbatim>\<open>if (!aiInstructionsContent)\<close>
  holds for \<^verbatim>\<open>null\<close> and for the empty string.
\<close>

definition syncRulesFor :: "rule_info list \<Rightarrow> filesystem \<Rightarrow> clock \<Rightarrow> control \<times> run" where
  "syncRulesFor topics fs clk =
     (let r0 = log Starting \<lparr>console = [], written = []\<rparr>;
          (aiInstructionsContent, r1) = readFile fs AI_INSTRUCTIONS_FILE r0
      in case aiInstructionsContent of
           None \<Rightarrow> (ProcessExit 1, log FailedToReadInstructions r1)
         | Some doc \<Rightarrow>
             if doc = [] then (ProcessExit 1, log FailedToReadInstructions r1)
             else
               (let metadata = extractMetadata doc (t_metadata clk);
                    r2 = log (VersionInfo (version metadata) (lastUpdated metadata)) r1
                in case extractCoreStandards doc of
                     Inl e \<Rightarrow> (Thrown e, r2)
                   | Inr coreStandards \<Rightarrow>
                       (let r3 = log ExtractedCore r2;
                            (rules, r4) = loadRules fs topics r3;
                            r5 = log (LoadedCount (length rules)) r4;
                            copilotContent =
                              generateCopilotInstructions coreStandards rules metadata
                                (t_copilot clk);
                            r6 = writeFile COPILOT_FILE copilotContent
                                   (log (Generating Copilot) r5);
                            replitContent =
                              generateReplitInstructions coreStandards rules metadata
                                (t_replit clk);
                            r7 = writeFile REPLIT_FILE replitContent
                                   (log (Generating Replit) r6);
                            cursorMainContent =
                              generateCursorMainRules coreStandards rules metadata;
                            r8 = writeFile
                                   (path_join CURSOR_RULES_DIR (lit ''project-standards.mdc''))
                                   cursorMainContent
                                   (log (Generating CursorMain) r7)
                        in case writeRuleFiles rules (log (Generating CursorIndividual) r8) of
                             (Returned, r9) \<Rightarrow> (Returned, log (Completed (length rules)) r9)
                           | (c, r9) \<Rightarrow> (c, r9))))"

definition syncRules :: "filesystem \<Rightarrow> clock \<Rightarrow> control \<times> run" where
  "syncRules = syncRulesFor RULE_FILES"

text \<open>
  The script's last lines: \<^verbatim>\<open>try { syncRules() } catch (error) { ...; process.exit(1) }\<close>.
  The result is the exit code of the process and what the run wrote and printed.
\<close>

definition mainFor :: "rule_info list \<Rightarrow> filesystem \<Rightarrow> clock \<Rightarrow> int \<times> run" where
  "mainFor topics fs clk =
     (case syncRulesFor topics fs clk of
        (Returned, r) \<Rightarrow> (0, r)
      | (ProcessExit n, r) \<Rightarrow> (n, r)
      | (Thrown e, r) \<Rightarrow> (1, log (ErrorDuringSync e) r))"

definition main :: "filesystem \<Rightarrow> clock \<Rightarrow> int \<times> run" where
  "main = mainFor RULE_FILES"

section \<open>Notions used to state the properties\<close>

text \<open>
  A topic loads when the read of its file gives a non-empty string; \<open>withContent\<close> is
  the entry that the loop then pushes to \<^verbatim>\<open>rules\<close>.
\<close>

definition loads :: "filesystem \<Rightarrow> rule_info \<Rightarrow> bool" where
  "loads fs t = truthy (fs (path_join RULES_DIR (file_name t)))"

definition withContent :: "filesystem \<Rightarrow> rule_info \<Rightarrow> rule" where
  "withContent fs t =
     \<lparr>file_name = file_name t, name = name t, key = key t,
      content = fs (path_join RULES_DIR (file_name t))\<rparr>"

text \<open>
  A document has a marker when it contains the opener, one or more code units of the
  class and the closing \<open>-->\<close>.
\<close>

definition has_marker :: "jsstring \<Rightarrow> (jschar \<Rightarrow> bool) \<Rightarrow> jsstring \<Rightarrow> bool" where
  "has_marker opener cls doc \<longleftrightarrow>
     (\<exists>p g q. doc = p @ opener @ g @ COMMENT_CLOSE @ q \<and> g \<noteq> [] \<and> list_all cls g)"

text \<open>The text behind the first newline; empty when there is no newline.\<close>

definition firstLineRemoved :: "jsstring \<Rightarrow> jsstring" where
  "firstLineRemoved s = drop 1 (dropWhile (\<lambda>c. c \<noteq> 0x0A) s)"

text \<open>
  The body of a per-topic file in the specification's words: the original content with
  at most one leading heading line removed.
\<close>

definition spec_body :: "jsstring \<Rightarrow> jsstring \<Rightarrow> bool" where
  "spec_body original body \<longleftrightarrow>
     body = original \<or>
     (startsWith original (lit ''# '') \<and> body = firstLineRemoved original)"

text \<open>
  The aggregate documents whose two lists name the topics \<open>ts\<close>, one line each, in the
  order of \<open>ts\<close>.
\<close>

definition aggregateDoc ::
  "jsstring \<Rightarrow> jsstring \<Rightarrow> jsstring \<Rightarrow> jsstring \<Rightarrow> 'a rule_info_scheme list \<Rightarrow> jsstring" where
  "aggregateDoc title coreStandards ver now ts =
     aggregateHead title coreStandards ver now @ concat (map aggregateLink ts)
       @ aggregateMiddle @ concat (map aggregatePlain ts) @ aggregateTail"

definition cursorDoc :: "jsstring \<Rightarrow> 'a rule_info_scheme list \<Rightarrow> jsstring" where
  "cursorDoc coreStandards ts =
     cursorHead coreStandards @ concat (map cursorSee ts) @ cursorMiddle
       @ concat (map cursorFrom ts) @ cursorTail"

text \<open>The per-topic file of a topic that loads: its path and its text.\<close>

definition topicFile :: "filesystem \<Rightarrow> rule_info \<Rightarrow> (jsstring \<times> jsstring) option" where
  "topicFile fs t =
     (case fs (path_join RULES_DIR (file_name t)) of
        None \<Rightarrow> None
      | Some c \<Rightarrow>
          if c = [] then None
          else Some (path_join CURSOR_RULES_DIR (key t @ lit ''.mdc''),
                     generateMdcContent c (name t)
                       (name t @ lit '' rules for React TypeScript development'')))"

text \<open>
  Two texts that differ at most in the time printed behind \<^verbatim>\<open>**Last Updated:**\<close>.
\<close>

definition same_but_timestamp :: "jsstring \<Rightarrow> jsstring \<Rightarrow> bool" where
  "same_but_timestamp a b \<longleftrightarrow>
     (\<exists>pre t t' post.
        a = pre @ lit ''**Last Updated:** '' @ toISOString t @ post \<and>
        b = pre @ lit ''**Last Updated:** '' @ toISOString t' @ post)"

text \<open>
  The file system that a run leaves behind: every file written holds its new text.
\<close>

definition after_run :: "filesystem \<Rightarrow> run \<Rightarrow> filesystem" where
  "after_run fs r = fold (\<lambda>(p, c) f. f(p \<mapsto> c)) (written r) fs"

section \<open>Example inputs\<close>

text \<open>
  A canonical document with a version and a core block, a rules directory in which two
  of three topics have a file, and a file system in which one topic's file is missing
  and another topic's file is empty.
\<close>

definition example_doc :: jsstring where
  "example_doc = lit ''<!-- VERSION: 2.0.0 --><!-- SYNC_START -->core text<!-- SYNC_END -->''"

definition example_topics :: "rule_info list" where
  "example_topics =
     [\<lparr>file_name = lit ''folder-structure.md'', name = lit ''Folder Structure'',
        key = lit ''folder-structure''\<rparr>,
      \<lparr>file_name = lit ''testing.md'', name = lit ''Testing'', key = lit ''testing''\<rparr>,
      \<lparr>file_name = lit ''routing.md'', name = lit ''Routing'', key = lit ''routing''\<rparr>]"

definition example_fs :: filesystem where
  "example_fs =
     [AI_INSTRUCTIONS_FILE \<mapsto> example_doc,
      path_join RULES_DIR (lit ''folder-structure.md'') \<mapsto> lit ''Keep folders flat.'',
      path_join RULES_DIR (lit ''testing.md'') \<mapsto> lit ''# Testing\<newline>\<newline>Write tests.\<newline>'']"

definition empty_file_fs :: filesystem where
  "empty_file_fs =
     (\<lambda>p. Some (lit ''x''))
       (AI_INSTRUCTIONS_FILE \<mapsto> example_doc,
        path_join RULES_DIR (lit ''testing.md'') := None,
        path_join RULES_DIR (lit ''routing.md'') \<mapsto> [])"

definition example_time :: "nat \<Rightarrow> utc_time" where
  "example_time ms =
     \<lparr>year = 2026, month = 11, day = 3, hours = 4, minutes = 5, seconds = 6, millis = ms\<rparr>"

definition example_clock :: clock where
  "example_clock =
     \<lparr>t_metadata = example_time 7, t_copilot = example_time 8, t_replit = example_time 9\<rparr>"

section \<open>Strings: first occurrences, substrings and trimming\<close>

lemma length_lit [simp]: "length (lit s) = length s"
  by (simp add: lit_def)

lemma find_index_None_iff: "find_index t s = None \<longleftrightarrow> \<not> sublist t s"
  by (induction s) (auto simp: sublist_Cons_right split: option.splits)

lemma indexOf_absent_iff: "indexOf s t = - 1 \<longleftrightarrow> \<not> sublist t s"
  by (auto simp: indexOf_def find_index_None_iff [symmetric] split: option.splits)

lemma indexOf_present: "sublist t s \<Longrightarrow> \<exists>k. find_index t s = Some k \<and> indexOf s t = int k"
  by (cases "find_index t s") (auto simp: indexOf_def find_index_None_iff)

lemma find_index_prefix: "find_index t s = Some k \<Longrightarrow> prefix t (drop k s)"
  by (induction s arbitrary: k) (auto split: if_splits option.splits)

lemma find_index_le: "find_index t s = Some k \<Longrightarrow> k + length t \<le> length s"
  by (induction s arbitrary: k) (auto split: if_splits option.splits dest: prefix_length_le)

lemma find_index_first: "find_index t s = Some k \<Longrightarrow> t \<noteq> [] \<Longrightarrow> \<not> sublist t (take k s)"
proof (induction s arbitrary: k)
  case Nil
  then show ?case by (simp split: if_splits)
next
  case (Cons c cs)
  show ?case
  proof (cases "prefix t (c # cs)")
    case True
    with Cons.prems show ?thesis by simp
  next
    case False
    with Cons.prems obtain k' where k': "find_index t cs = Some k'" "k = Suc k'"
      by (auto split: option.splits)
    have "\<not> sublist t (take k' cs)" using Cons.IH [OF k'(1) Cons.prems(2)] .
    moreover have "\<not> prefix t (c # take k' cs)"
    proof
      assume "prefix t (c # take k' cs)"
      moreover have "prefix (c # take k' cs) (c # cs)" by (simp add: take_is_prefix)
      ultimately have "prefix t (c # cs)" by (rule prefix_order.trans)
      with False show False by contradiction
    qed
    ultimately show ?thesis using k'(2) by (simp add: sublist_Cons_right)
  qed
qed

lemma substring_between:
  "0 \<le> a \<Longrightarrow> a \<le> b \<Longrightarrow> b \<le> int (length s) \<Longrightarrow>
   substring s a b = take (nat (b - a)) (drop (nat a) s)"
  by (simp add: substring_def Let_def min_def max_def)

lemma substring_swapped:
  "0 \<le> b \<Longrightarrow> b \<le> a \<Longrightarrow> a \<le> int (length s) \<Longrightarrow>
   substring s a b = take (nat (a - b)) (drop (nat b) s)"
  by (simp add: substring_def Let_def min_def max_def)

lemma sublist_trim: "sublist (trim s) s"
proof -
  have "prefix (trim s) (dropWhile is_ws s)"
    unfolding trim_def
    by (metis prefix_def rev_append rev_rev_ident takeWhile_dropWhile_id)
  moreover have "suffix (dropWhile is_ws s) s"
    by (rule suffix_dropWhile)
  ultimately show ?thesis
    unfolding sublist_altdef' by blast
qed

lemma trim_Nil_iff: "trim s = [] \<longleftrightarrow> (\<forall>c \<in> set s. is_ws c)"
proof -
  define a where "a = dropWhile is_ws s"
  have "a \<noteq> [] \<Longrightarrow> \<not> (\<forall>c \<in> set a. is_ws c)"
    unfolding a_def by (metis hd_dropWhile hd_in_set)
  then have "(\<forall>c \<in> set a. is_ws c) \<longleftrightarrow> a = []" by auto
  moreover have "trim s = [] \<longleftrightarrow> (\<forall>c \<in> set a. is_ws c)"
    by (simp add: trim_def a_def dropWhile_eq_Nil_conv)
  moreover have "a = [] \<longleftrightarrow> (\<forall>c \<in> set s. is_ws c)"
    by (simp add: a_def dropWhile_eq_Nil_conv)
  ultimately show ?thesis by simp
qed

lemma trim_idem: "trim (trim s) = trim s"
proof (cases "trim s = []")
  case True
  have "trim [] = []" by (simp add: trim_def)
  with True show ?thesis by simp
next
  case False
  define a where "a = dropWhile is_ws s"
  have t: "trim s = rev (dropWhile is_ws (rev a))" by (simp add: trim_def a_def)
  have "prefix (trim s) a"
    unfolding t by (metis prefix_def rev_append rev_rev_ident takeWhile_dropWhile_id)
  then have "hd (trim s) = hd a" using False
    by (metis hd_append2 prefix_def)
  moreover have "a \<noteq> []" using False t by auto
  then have "\<not> is_ws (hd a)" unfolding a_def by (rule hd_dropWhile)
  ultimately have "dropWhile is_ws (trim s) = trim s" using False
    by (metis dropWhile.simps(2) list.collapse)
  then have "trim (trim s) = rev (dropWhile is_ws (rev (trim s)))" by (simp add: trim_def)
  also have "\<dots> = trim s" by (simp add: t)
  finally show ?thesis .
qed

lemma removeIncludes_id: "\<not> sublist INCLUDE_START s \<Longrightarrow> removeIncludes s = s"
  by (induction s rule: removeIncludes.induct) (auto simp: sublist_Cons_right)

lemma prefix_drop_nth:
  assumes "prefix a (drop i s)" "d < length a"
  shows "s ! (i + d) = a ! d"
proof -
  from assms(1) obtain r where r: "drop i s = a @ r" by (auto simp: prefix_def)
  have "i + d < length s"
  proof -
    have "length (drop i s) = length a + length r" using r by simp
    then show ?thesis using assms(2) by simp
  qed
  then have "s ! (i + d) = drop i s ! d" by simp
  also have "\<dots> = a ! d" using r assms(2) by (simp add: nth_append)
  finally show ?thesis .
qed

lemma markers_apart:
  assumes a: "prefix a (drop i s)" and b: "prefix b (drop j s)"
    and ij: "i < j" and b_ne: "b \<noteq> []" and hd_b: "hd b \<notin> set (tl a)"
  shows "i + length a \<le> j"
proof (rule ccontr)
  assume "\<not> i + length a \<le> j"
  then have d: "j - i < length a" "0 < j - i" using ij by auto
  have "a ! (j - i) = s ! (i + (j - i))" using prefix_drop_nth [OF a d(1)] by simp
  also have "\<dots> = s ! (j + 0)" using ij by simp
  also have "\<dots> = b ! 0" using b_ne by (intro prefix_drop_nth [OF b]) simp
  also have "\<dots> = hd b" using b_ne by (simp add: hd_conv_nth)
  finally have "a ! (j - i) = hd b" .
  moreover have "a ! (j - i) \<in> set (tl a)"
  proof -
    have "a ! (j - i) = tl a ! (j - i - 1)" using d by (cases a) (auto simp: nth_Cons')
    moreover have "j - i - 1 < length (tl a)" using d by simp
    ultimately show ?thesis by (metis nth_mem)
  qed
  ultimately show False using hd_b by simp
qed

lemma SYNC_END_not_in_START: "hd SYNC_END \<notin> set (tl SYNC_START)"
  by (simp add: SYNC_END_def SYNC_START_def lit_def)

lemma SYNC_START_len: "length SYNC_START = 19" by (simp add: SYNC_START_def)
lemma SYNC_END_len: "length SYNC_END = 17" by (simp add: SYNC_END_def)
lemma SYNC_END_ne: "SYNC_END \<noteq> []" by (simp add: SYNC_END_def lit_def)
lemma SYNC_START_ne: "SYNC_START \<noteq> []" by (simp add: SYNC_START_def lit_def)

lemma extract_between:
  assumes i: "find_index SYNC_START doc = Some i"
    and j: "find_index SYNC_END doc = Some j"
    and ij: "i < j"
  shows "substring doc (int i + int (length SYNC_START)) (int j) =
         take (j - (i + length SYNC_START)) (drop (i + length SYNC_START) doc)"
proof -
  have "i + length SYNC_START \<le> j"
    using markers_apart [OF find_index_prefix [OF i] find_index_prefix [OF j] ij
        SYNC_END_ne SYNC_END_not_in_START] .
  moreover have "j \<le> length doc" using find_index_le [OF j] by simp
  ultimately show ?thesis
    using substring_between [of "int i + int (length SYNC_START)" "int j" doc]
    by (simp add: nat_diff_distrib' nat_add_distrib)
qed

lemma mainFor_unreadable:
  "fs AI_INSTRUCTIONS_FILE = None \<or> fs AI_INSTRUCTIONS_FILE = Some [] \<Longrightarrow>
   fst (mainFor topics fs clk) = 1 \<and> written (snd (mainFor topics fs clk)) = [] \<and>
   last (console (snd (mainFor topics fs clk))) = FailedToReadInstructions"
  by (auto simp: mainFor_def syncRulesFor_def readFile_def log_def Let_def)

lemma mainFor_malformed:
  "fs AI_INSTRUCTIONS_FILE = Some doc \<Longrightarrow> doc \<noteq> [] \<Longrightarrow> extractCoreStandards doc = Inl e \<Longrightarrow>
   fst (mainFor topics fs clk) = 1 \<and> written (snd (mainFor topics fs clk)) = [] \<and>
   last (console (snd (mainFor topics fs clk))) = ErrorDuringSync e"
  by (auto simp: mainFor_def syncRulesFor_def readFile_def log_def Let_def)

lemma extract_fails_iff:
  "extractCoreStandards doc = Inl MalformedSourceDocument \<longleftrightarrow>
   \<not> sublist SYNC_START doc \<or> \<not> sublist SYNC_END doc"
  by (auto simp: extractCoreStandards_def Let_def indexOf_absent_iff)

text \<open>
  Claim C1. A document that lacks the start marker or the end marker makes
  \<open>extractCoreStandards\<close> throw its error, and a run whose instructions file holds
  such a document ends with exit code 1 and has written no file; when the document is
  not empty the last line printed is the error caught at the end of the script.
\<close>

theorem missing_marker_is_fatal:
  assumes "\<not> sublist SYNC_START doc \<or> \<not> sublist SYNC_END doc"
  shows "extractCoreStandards doc = Inl MalformedSourceDocument \<and>
         (\<forall>topics fs clk. fs AI_INSTRUCTIONS_FILE = Some doc \<longrightarrow>
            fst (mainFor topics fs clk) = 1 \<and> written (snd (mainFor topics fs clk)) = [] \<and>
            (doc \<noteq> [] \<longrightarrow>
               last (console (snd (mainFor topics fs clk))) =
                 ErrorDuringSync MalformedSourceDocument))"
proof -
  have e: "extractCoreStandards doc = Inl MalformedSourceDocument"
    using assms by (simp add: extract_fails_iff)
  have "fst (mainFor topics fs clk) = 1 \<and> written (snd (mainFor topics fs clk)) = [] \<and>
        (doc \<noteq> [] \<longrightarrow>
           last (console (snd (mainFor topics fs clk))) = ErrorDuringSync MalformedSourceDocument)"
    if "fs AI_INSTRUCTIONS_FILE = Some doc" for topics fs clk
  proof (cases "doc = []")
    case True
    with that mainFor_unreadable [of fs topics clk] show ?thesis by simp
  next
    case False
    with that e mainFor_malformed [of fs doc MalformedSourceDocument topics clk]
    show ?thesis by simp
  qed
  with e show ?thesis by blast
qed

text \<open>
  The theorem of C1 at a document without markers.
\<close>

theorem missing_marker_is_fatal_witness:
  "\<not> sublist SYNC_START (lit ''# Rules'') \<and>
   extractCoreStandards (lit ''# Rules'') = Inl MalformedSourceDocument \<and>
   fst (main (\<lambda>p. Some (lit ''# Rules'')) example_clock) = 1 \<and>
   written (snd (main (\<lambda>p. Some (lit ''# Rules'')) example_clock)) = []"
proof -
  have h: "\<not> sublist SYNC_START (lit ''# Rules'')"
    by (simp add: indexOf_absent_iff [symmetric] indexOf_def SYNC_START_def lit_def)
  then have "\<not> sublist SYNC_START (lit ''# Rules'') \<or> \<not> sublist SYNC_END (lit ''# Rules'')"
    by simp
  from missing_marker_is_fatal [OF this] h show ?thesis
    by (simp add: main_def)
qed

text \<open>
  Claim C2. A document in which both markers occur and the end marker comes first should
  make \<open>extractCoreStandards\<close> fail. The code does not: both calls of
  \<^verbatim>\<open>indexOf\<close> find their marker, the guard only tests for \<open>-1\<close>, and
  \<^verbatim>\<open>substring(37, 0)\<close> swaps its arguments. For the document below the function
  returns the whole document, both markers included, which is not the text between the
  start marker and the end marker that the function's comment promises.
\<close>

theorem reversed_markers_not_rejected:
  "indexOf (lit ''<!-- SYNC_END -->x<!-- SYNC_START -->'') SYNC_END = 0 \<and>
   indexOf (lit ''<!-- SYNC_END -->x<!-- SYNC_START -->'') SYNC_START = 18 \<and>
   extractCoreStandards (lit ''<!-- SYNC_END -->x<!-- SYNC_START -->'') =
     Inr (lit ''<!-- SYNC_END -->x<!-- SYNC_START -->'')"
  by code_simp

text \<open>
  What the code returns in general when the first end marker stands before the first
  start marker: \<open>substring\<close> swaps its arguments, so the value is built from the text
  that begins at the end marker and ends behind the start marker, trimmed, with the
  placeholder regions removed, and trimmed again.
\<close>

theorem reversed_markers_return:
  assumes "sublist SYNC_START doc" and "sublist SYNC_END doc"
    and "indexOf doc SYNC_END < indexOf doc SYNC_START"
  shows "extractCoreStandards doc =
         Inr (trim (removeIncludes (trim
           (take (nat (indexOf doc SYNC_START + 19 - indexOf doc SYNC_END))
              (drop (nat (indexOf doc SYNC_END)) doc)))))"
proof -
  from assms(1) obtain i where i: "find_index SYNC_START doc = Some i" "indexOf doc SYNC_START = int i"
    using indexOf_present by blast
  from assms(2) obtain j where j: "find_index SYNC_END doc = Some j" "indexOf doc SYNC_END = int j"
    using indexOf_present by blast
  have ji: "j < i" using assms(3) i(2) j(2) by simp
  have "i + 19 \<le> length doc" using find_index_le [OF i(1)] by (simp add: SYNC_START_len)
  then have "substring doc (int i + 19) (int j) = take (nat (int i + 19 - int j)) (drop j doc)"
    using ji substring_swapped [of "int j" "int i + 19" doc] by simp
  then show ?thesis
    by (simp add: extractCoreStandards_def Let_def i(2) j(2) SYNC_START_len)
qed

text \<open>
  The previous theorem at a document with the markers in reversed order and text behind
  them.
\<close>

theorem reversed_markers_return_witness:
  "sublist SYNC_START (lit ''<!-- SYNC_END -->x<!-- SYNC_START --> y'') \<and>
   sublist SYNC_END (lit ''<!-- SYNC_END -->x<!-- SYNC_START --> y'') \<and>
   indexOf (lit ''<!-- SYNC_END -->x<!-- SYNC_START --> y'') SYNC_END
     < indexOf (lit ''<!-- SYNC_END -->x<!-- SYNC_START --> y'') SYNC_START \<and>
   extractCoreStandards (lit ''<!-- SYNC_END -->x<!-- SYNC_START --> y'') =
     Inr (lit ''<!-- SYNC_END -->x<!-- SYNC_START -->'')"
proof -
  have a: "indexOf (lit ''<!-- SYNC_END -->x<!-- SYNC_START --> y'') SYNC_START = 18"
    by code_simp
  have b: "indexOf (lit ''<!-- SYNC_END -->x<!-- SYNC_START --> y'') SYNC_END = 0"
    by code_simp
  have s: "sublist SYNC_START (lit ''<!-- SYNC_END -->x<!-- SYNC_START --> y'')"
    using a indexOf_absent_iff [of "lit ''<!-- SYNC_END -->x<!-- SYNC_START --> y''" SYNC_START]
    by simp
  have e: "sublist SYNC_END (lit ''<!-- SYNC_END -->x<!-- SYNC_START --> y'')"
    using b indexOf_absent_iff [of "lit ''<!-- SYNC_END -->x<!-- SYNC_START --> y''" SYNC_END]
    by simp
  have lt: "indexOf (lit ''<!-- SYNC_END -->x<!-- SYNC_START --> y'') SYNC_END
     < indexOf (lit ''<!-- SYNC_END -->x<!-- SYNC_START --> y'') SYNC_START"
    by (simp add: a b)
  have v: "trim (removeIncludes (trim (take (nat (18 + 19 - 0))
              (drop (nat 0) (lit ''<!-- SYNC_END -->x<!-- SYNC_START --> y''))))) =
           lit ''<!-- SYNC_END -->x<!-- SYNC_START -->''"
    by code_simp
  show ?thesis
    using reversed_markers_return [OF s e lt] s e lt v by (simp add: a b)
qed

lemma no_occurrence_inside:
  assumes t: "t \<noteq> []" and u: "hd t \<notin> set (tl t)" and n: "\<not> sublist t a" and k: "k < length a"
  shows "\<not> prefix t (drop k (a @ t @ r))"
proof
  assume p: "prefix t (drop k (a @ t @ r))"
  have q: "prefix t (drop (length a) (a @ t @ r))" by simp
  have "k + length t \<le> length a"
    using markers_apart [OF p q k t u] .
  then have "drop k (a @ t @ r) = drop k a @ t @ r" and "length t \<le> length (drop k a)"
    by simp_all
  with p have "prefix t (drop k a)"
    by (metis prefix_append prefix_length_prefix prefix_order.refl append_prefixD
        prefix_def append_eq_append_conv_if take_is_prefix)
  then have "sublist t a"
    by (meson prefix_imp_sublist sublist_drop sublist_order.order.trans)
  with n show False by contradiction
qed

lemma removeIncludes_keeps:
  "(\<And>k. k < length a \<Longrightarrow> \<not> prefix INCLUDE_START (drop k (a @ rest))) \<Longrightarrow>
   removeIncludes (a @ rest) = a @ removeIncludes rest"
proof (induction a)
  case Nil
  then show ?case by simp
next
  case (Cons c a)
  have "\<not> prefix INCLUDE_START ((c # a) @ rest)" using Cons.prems [of 0] by simp
  moreover have "removeIncludes (a @ rest) = a @ removeIncludes rest"
  proof (rule Cons.IH)
    fix k
    assume "k < length a"
    then show "\<not> prefix INCLUDE_START (drop k (a @ rest))"
      using Cons.prems [of "Suc k"] by simp
  qed
  ultimately show ?case by simp
qed

lemma find_index_behind:
  assumes t: "t \<noteq> []" and u: "hd t \<notin> set (tl t)"
  shows "\<not> sublist t m \<Longrightarrow> find_index t (m @ t @ b) = Some (length m)"
proof (induction m)
  case Nil
  obtain c cs where "t @ b = c # cs" using t by (cases "t @ b") auto
  moreover have "prefix t (t @ b)" by simp
  ultimately show ?case by simp
next
  case (Cons c m)
  have "\<not> prefix t (drop 0 ((c # m) @ t @ b))"
    using no_occurrence_inside [OF t u Cons.prems, of 0 b] by simp
  then have np: "\<not> prefix t (c # m @ t @ b)" by simp
  have "\<not> sublist t m" using Cons.prems by (auto simp: sublist_Cons_right)
  then have "find_index t (m @ t @ b) = Some (length m)" by (rule Cons.IH)
  with np show ?case by simp
qed

lemma INCLUDE_START_border: "INCLUDE_START \<noteq> []" "hd INCLUDE_START \<notin> set (tl INCLUDE_START)"
  by (simp_all add: INCLUDE_START_def lit_def)

lemma INCLUDE_END_border: "INCLUDE_END \<noteq> []" "hd INCLUDE_END \<notin> set (tl INCLUDE_END)"
  by (simp_all add: INCLUDE_END_def lit_def)

lemma removeIncludes_region:
  assumes a: "\<not> sublist INCLUDE_START a" and m: "\<not> sublist INCLUDE_END m"
  shows "removeIncludes (a @ INCLUDE_START @ m @ INCLUDE_END @ b) = a @ removeIncludes b"
proof -
  let ?rest = "INCLUDE_START @ m @ INCLUDE_END @ b"
  have "removeIncludes (a @ ?rest) = a @ removeIncludes ?rest"
  proof (rule removeIncludes_keeps)
    fix k
    assume "k < length a"
    then show "\<not> prefix INCLUDE_START (drop k (a @ ?rest))"
      using no_occurrence_inside [OF INCLUDE_START_border a] by blast
  qed
  moreover have "removeIncludes ?rest = removeIncludes b"
  proof -
    obtain c cs where cs: "?rest = c # cs"
      using INCLUDE_START_border(1) by (cases ?rest) auto
    have p: "prefix INCLUDE_START (c # cs)" unfolding cs [symmetric] by simp
    have f: "find_index INCLUDE_END (drop (length INCLUDE_START) (c # cs)) = Some (length m)"
      unfolding cs [symmetric] using find_index_behind [OF INCLUDE_END_border m] by simp
    have d: "drop (length INCLUDE_START + length m + length INCLUDE_END) (c # cs) = b"
      unfolding cs [symmetric] by simp
    have "removeIncludes (c # cs) = removeIncludes b"
      by (simp only: removeIncludes.simps p f if_True option.case d)
    then show ?thesis by (simp only: cs)
  qed
  ultimately show ?thesis by simp
qed

lemma subseq_removeIncludes: "subseq (removeIncludes s) s"
proof (induction s rule: removeIncludes.induct)
  case 1
  then show ?case by simp
next
  case (2 c cs)
  show ?case
  proof (cases "prefix INCLUDE_START (c # cs)")
    case False
    with 2 show ?thesis by simp
  next
    case True
    show ?thesis
    proof (cases "find_index INCLUDE_END (drop (length INCLUDE_START) (c # cs))")
      case None
      with True 2 show ?thesis by simp
    next
      case (Some k)
      let ?n = "length INCLUDE_START + k + length INCLUDE_END"
      have "subseq (removeIncludes (drop ?n (c # cs))) (drop ?n (c # cs))"
        using 2(2) [OF True Some] .
      moreover have "subseq (drop ?n (c # cs)) (c # cs)"
        by (rule sublist_imp_subseq) (rule sublist_drop)
      ultimately have "subseq (removeIncludes (drop ?n (c # cs))) (c # cs)"
        by (rule subseq_order.trans)
      moreover have "removeIncludes (c # cs) = removeIncludes (drop ?n (c # cs))"
        using True Some by (simp only: removeIncludes.simps if_True option.case)
      ultimately show ?thesis by simp
    qed
  qed
qed

lemma subseq_trim: "subseq (trim s) s"
  by (rule sublist_imp_subseq) (rule sublist_trim)

text \<open>
  Claim C3, as stated, fails in each of its three parts. With only white space between
  the markers the result is the empty string. A second start marker between the markers
  stays in the result. Deleting a placeholder region joins the text on its two sides,
  and the joined text can itself hold a placeholder region or an end marker, which then
  stays in the result.
\<close>

theorem core_claim_counterexample:
  "extractCoreStandards (lit ''<!-- SYNC_START --> <!-- SYNC_END -->'') = Inr [] \<and>
   extractCoreStandards (lit ''<!-- SYNC_START -->a<!-- SYNC_START -->b<!-- SYNC_END -->'') =
     Inr (lit ''a<!-- SYNC_START -->b'') \<and>
   extractCoreStandards
     (lit ''<!-- SYNC_START --><!-- INCLUDE<!-- INCLUDE_RULES:START -->x<!-- INCLUDE_RULES:END -->_RULES:START -->y<!-- INCLUDE_RULES:END --><!-- SYNC_END -->'') =
     Inr (lit ''<!-- INCLUDE_RULES:START -->y<!-- INCLUDE_RULES:END -->'') \<and>
   extractCoreStandards
     (lit ''<!-- SYNC_START --><!-- SYNC<!-- INCLUDE_RULES:START --><!-- INCLUDE_RULES:END -->_END -->z<!-- SYNC_END -->'') =
     Inr (lit ''<!-- SYNC_END -->z'')"
  by code_simp

lemma not_sublist_trim: "\<not> sublist t s \<Longrightarrow> \<not> sublist t (trim s)"
  using sublist_trim sublist_order.order.trans by blast

text \<open>
  Claim C3, amended. When both markers occur and the first start marker stands before
  the first end marker, \<open>extractCoreStandards\<close> returns a value that is computed
  from the text \<open>mid\<close> strictly between the two markers alone, whatever stands before
  and behind them: \<open>mid\<close> trimmed, with the placeholder regions removed, and trimmed
  again. The value has no white space at its ends and consists of code units of \<open>mid\<close>
  in their order; \<open>mid\<close> has no end marker. A placeholder region is removed whole:
  when the trimmed \<open>mid\<close> is a text \<open>a\<close> without a placeholder start token, then a
  placeholder start token, a text without a placeholder end token, a placeholder end
  token and a text \<open>b\<close>, the value is \<open>a\<close> followed by what the removal leaves of
  \<open>b\<close>, trimmed; when \<open>b\<close> has no placeholder start token the value is \<open>a\<close> and
  \<open>b\<close> joined and trimmed, and it has no placeholder start token, start marker or
  end marker unless the joined text has one. When \<open>mid\<close> has no placeholder start
  token, the value is \<open>mid\<close> trimmed; it has no end marker and no placeholder start
  token, it has no start marker when \<open>mid\<close> has none, and it is non-empty exactly when
  \<open>mid\<close> has a code unit that is not white space.
\<close>

theorem core_between_markers:
  assumes "sublist SYNC_START doc" and "sublist SYNC_END doc"
    and "indexOf doc SYNC_START < indexOf doc SYNC_END"
    and "mid = take (nat (indexOf doc SYNC_END - (indexOf doc SYNC_START + 19)))
                 (drop (nat (indexOf doc SYNC_START + 19)) doc)"
  shows "extractCoreStandards doc = Inr (trim (removeIncludes (trim mid))) \<and>
         trim (trim (removeIncludes (trim mid))) = trim (removeIncludes (trim mid)) \<and>
         subseq (trim (removeIncludes (trim mid))) mid \<and>
         \<not> sublist SYNC_END mid \<and>
         (trim mid = a @ INCLUDE_START @ m @ INCLUDE_END @ b \<and>
          \<not> sublist INCLUDE_START a \<and> \<not> sublist INCLUDE_END m \<longrightarrow>
            extractCoreStandards doc = Inr (trim (a @ removeIncludes b)) \<and>
            (\<not> sublist INCLUDE_START b \<longrightarrow>
               extractCoreStandards doc = Inr (trim (a @ b)) \<and>
               (\<not> sublist INCLUDE_START (a @ b) \<longrightarrow> \<not> sublist INCLUDE_START (trim (a @ b))) \<and>
               (\<not> sublist SYNC_START (a @ b) \<longrightarrow> \<not> sublist SYNC_START (trim (a @ b))) \<and>
               (\<not> sublist SYNC_END (a @ b) \<longrightarrow> \<not> sublist SYNC_END (trim (a @ b))))) \<and>
         (\<not> sublist INCLUDE_START mid \<longrightarrow>
            extractCoreStandards doc = Inr (trim mid) \<and>
            \<not> sublist SYNC_END (trim mid) \<and>
            \<not> sublist INCLUDE_START (trim mid) \<and>
            (\<not> sublist SYNC_START mid \<longrightarrow> \<not> sublist SYNC_START (trim mid)) \<and>
            (trim mid \<noteq> [] \<longleftrightarrow> (\<exists>c \<in> set mid. \<not> is_ws c)))"
proof -
  from assms(1) obtain i where i: "find_index SYNC_START doc = Some i" "indexOf doc SYNC_START = int i"
    using indexOf_present by blast
  from assms(2) obtain j where j: "find_index SYNC_END doc = Some j" "indexOf doc SYNC_END = int j"
    using indexOf_present by blast
  have ij: "i < j" using assms(3) i(2) j(2) by simp
  have mid: "mid = take (j - (i + 19)) (drop (i + 19) doc)"
    using assms(4) by (simp add: i(2) j(2) nat_diff_distrib' nat_add_distrib)
  have "substring doc (int i + int (length SYNC_START)) (int j) = mid"
    using extract_between [OF i(1) j(1) ij] by (simp add: mid SYNC_START_len)
  then have r: "extractCoreStandards doc = Inr (trim (removeIncludes (trim mid)))"
    by (simp add: extractCoreStandards_def Let_def i(2) j(2))
  have "sublist mid (take j doc)"
  proof -
    have "i + 19 \<le> j"
      using markers_apart [OF find_index_prefix [OF i(1)] find_index_prefix [OF j(1)] ij
          SYNC_END_ne SYNC_END_not_in_START] by (simp add: SYNC_START_len)
    then have "mid = drop (i + 19) (take j doc)" by (simp add: mid drop_take)
    then show ?thesis by simp
  qed
  moreover have "\<not> sublist SYNC_END (take j doc)"
    using find_index_first [OF j(1) SYNC_END_ne] .
  ultimately have no_end: "\<not> sublist SYNC_END mid"
    using sublist_order.order.trans by blast
  have sub: "subseq (trim (removeIncludes (trim mid))) mid"
  proof -
    have "subseq (trim (removeIncludes (trim mid))) (removeIncludes (trim mid))"
      by (rule subseq_trim)
    also have "subseq (removeIncludes (trim mid)) (trim mid)" by (rule subseq_removeIncludes)
    also have "subseq (trim mid) mid" by (rule subseq_trim)
    finally show ?thesis .
  qed
  have one: "extractCoreStandards doc = Inr (trim (a @ removeIncludes b)) \<and>
            (\<not> sublist INCLUDE_START b \<longrightarrow>
               extractCoreStandards doc = Inr (trim (a @ b)) \<and>
               (\<not> sublist INCLUDE_START (a @ b) \<longrightarrow> \<not> sublist INCLUDE_START (trim (a @ b))) \<and>
               (\<not> sublist SYNC_START (a @ b) \<longrightarrow> \<not> sublist SYNC_START (trim (a @ b))) \<and>
               (\<not> sublist SYNC_END (a @ b) \<longrightarrow> \<not> sublist SYNC_END (trim (a @ b))))"
    if t: "trim mid = a @ INCLUDE_START @ m @ INCLUDE_END @ b"
      and a: "\<not> sublist INCLUDE_START a" and m: "\<not> sublist INCLUDE_END m"
  proof -
    have "removeIncludes (trim mid) = a @ removeIncludes b"
      unfolding t using a m by (rule removeIncludes_region)
    then have v: "extractCoreStandards doc = Inr (trim (a @ removeIncludes b))"
      using r by simp
    have w: "extractCoreStandards doc = Inr (trim (a @ b))" if "\<not> sublist INCLUDE_START b"
      using v removeIncludes_id [OF that] by simp
    show ?thesis
    proof (intro conjI impI)
      show "extractCoreStandards doc = Inr (trim (a @ removeIncludes b))" by (rule v)
    next
      assume "\<not> sublist INCLUDE_START b"
      then show "extractCoreStandards doc = Inr (trim (a @ b))" by (rule w)
    next
      assume "\<not> sublist INCLUDE_START (a @ b)"
      then show "\<not> sublist INCLUDE_START (trim (a @ b))" by (rule not_sublist_trim)
    next
      assume "\<not> sublist SYNC_START (a @ b)"
      then show "\<not> sublist SYNC_START (trim (a @ b))" by (rule not_sublist_trim)
    next
      assume "\<not> sublist SYNC_END (a @ b)"
      then show "\<not> sublist SYNC_END (trim (a @ b))" by (rule not_sublist_trim)
    qed
  qed
  have none: "extractCoreStandards doc = Inr (trim mid) \<and>
        \<not> sublist SYNC_END (trim mid) \<and>
        \<not> sublist INCLUDE_START (trim mid) \<and>
        (\<not> sublist SYNC_START mid \<longrightarrow> \<not> sublist SYNC_START (trim mid)) \<and>
        (trim mid \<noteq> [] \<longleftrightarrow> (\<exists>c \<in> set mid. \<not> is_ws c))"
    if inc: "\<not> sublist INCLUDE_START mid"
  proof -
    have "removeIncludes (trim mid) = trim mid"
      using not_sublist_trim [OF inc] by (rule removeIncludes_id)
    then have "extractCoreStandards doc = Inr (trim mid)"
      using r by (simp add: trim_idem)
    then show ?thesis
      using not_sublist_trim [OF inc] not_sublist_trim [OF no_end] not_sublist_trim [of SYNC_START mid]
      by (auto simp: trim_Nil_iff)
  qed
  show ?thesis
  proof (intro conjI)
    show "extractCoreStandards doc = Inr (trim (removeIncludes (trim mid)))" by (rule r)
    show "trim (trim (removeIncludes (trim mid))) = trim (removeIncludes (trim mid))"
      by (rule trim_idem)
    show "subseq (trim (removeIncludes (trim mid))) mid" by (rule sub)
    show "\<not> sublist SYNC_END mid" by (rule no_end)
    show "trim mid = a @ INCLUDE_START @ m @ INCLUDE_END @ b \<and>
          \<not> sublist INCLUDE_START a \<and> \<not> sublist INCLUDE_END m \<longrightarrow>
            extractCoreStandards doc = Inr (trim (a @ removeIncludes b)) \<and>
            (\<not> sublist INCLUDE_START b \<longrightarrow>
               extractCoreStandards doc = Inr (trim (a @ b)) \<and>
               (\<not> sublist INCLUDE_START (a @ b) \<longrightarrow> \<not> sublist INCLUDE_START (trim (a @ b))) \<and>
               (\<not> sublist SYNC_START (a @ b) \<longrightarrow> \<not> sublist SYNC_START (trim (a @ b))) \<and>
               (\<not> sublist SYNC_END (a @ b) \<longrightarrow> \<not> sublist SYNC_END (trim (a @ b))))"
      using one by (intro impI) (elim conjE)
    show "\<not> sublist INCLUDE_START mid \<longrightarrow>
            extractCoreStandards doc = Inr (trim mid) \<and>
            \<not> sublist SYNC_END (trim mid) \<and>
            \<not> sublist INCLUDE_START (trim mid) \<and>
            (\<not> sublist SYNC_START mid \<longrightarrow> \<not> sublist SYNC_START (trim mid)) \<and>
            (trim mid \<noteq> [] \<longleftrightarrow> (\<exists>c \<in> set mid. \<not> is_ws c))"
      using none by (intro impI)
  qed
qed

text \<open>
  The theorem of C3 at a document without a placeholder region and at a document with
  one, each with text before, between and behind the markers.
\<close>

theorem core_between_markers_witness:
  "sublist SYNC_START (lit ''v1 <!-- SYNC_START --> core text <!-- SYNC_END --> tail'') \<and>
   sublist SYNC_END (lit ''v1 <!-- SYNC_START --> core text <!-- SYNC_END --> tail'') \<and>
   indexOf (lit ''v1 <!-- SYNC_START --> core text <!-- SYNC_END --> tail'') SYNC_START
     < indexOf (lit ''v1 <!-- SYNC_START --> core text <!-- SYNC_END --> tail'') SYNC_END \<and>
   \<not> sublist INCLUDE_START (lit '' core text '') \<and>
   \<not> sublist SYNC_START (lit '' core text '') \<and>
   extractCoreStandards (lit ''v1 <!-- SYNC_START --> core text <!-- SYNC_END --> tail'') =
     Inr (lit ''core text'') \<and>
   \<not> sublist SYNC_START (lit ''core text'') \<and>
   \<not> sublist SYNC_END (lit ''core text'') \<and>
   sublist SYNC_START
     (lit ''v1 <!-- SYNC_START --> core <!-- INCLUDE_RULES:START -->x<!-- INCLUDE_RULES:END --> text <!-- SYNC_END --> tail'') \<and>
   sublist SYNC_END
     (lit ''v1 <!-- SYNC_START --> core <!-- INCLUDE_RULES:START -->x<!-- INCLUDE_RULES:END --> text <!-- SYNC_END --> tail'') \<and>
   indexOf
     (lit ''v1 <!-- SYNC_START --> core <!-- INCLUDE_RULES:START -->x<!-- INCLUDE_RULES:END --> text <!-- SYNC_END --> tail'')
     SYNC_START
     < indexOf
         (lit ''v1 <!-- SYNC_START --> core <!-- INCLUDE_RULES:START -->x<!-- INCLUDE_RULES:END --> text <!-- SYNC_END --> tail'')
         SYNC_END \<and>
   trim (lit '' core <!-- INCLUDE_RULES:START -->x<!-- INCLUDE_RULES:END --> text '') =
     lit ''core '' @ INCLUDE_START @ lit ''x'' @ INCLUDE_END @ lit '' text'' \<and>
   \<not> sublist INCLUDE_START (lit ''core '') \<and>
   \<not> sublist INCLUDE_END (lit ''x'') \<and>
   \<not> sublist INCLUDE_START (lit '' text'') \<and>
   extractCoreStandards
     (lit ''v1 <!-- SYNC_START --> core <!-- INCLUDE_RULES:START -->x<!-- INCLUDE_RULES:END --> text <!-- SYNC_END --> tail'') =
     Inr (lit ''core  text'') \<and>
   \<not> sublist INCLUDE_START (lit ''core  text'')"
proof -
  let ?doc = "lit ''v1 <!-- SYNC_START --> core text <!-- SYNC_END --> tail''"
  let ?mid = "lit '' core text ''"
  have a: "indexOf ?doc SYNC_START = 3" by code_simp
  have b: "indexOf ?doc SYNC_END = 33" by code_simp
  have s: "sublist SYNC_START ?doc" using a indexOf_absent_iff [of ?doc SYNC_START] by simp
  have e: "sublist SYNC_END ?doc" using b indexOf_absent_iff [of ?doc SYNC_END] by simp
  have lt: "indexOf ?doc SYNC_START < indexOf ?doc SYNC_END" by (simp add: a b)
  have m: "?mid = take (nat (indexOf ?doc SYNC_END - (indexOf ?doc SYNC_START + 19)))
                 (drop (nat (indexOf ?doc SYNC_START + 19)) ?doc)"
    unfolding a b by code_simp
  have ni: "\<not> sublist INCLUDE_START ?mid"
    unfolding indexOf_absent_iff [symmetric] by code_simp
  have ns: "\<not> sublist SYNC_START ?mid"
    unfolding indexOf_absent_iff [symmetric] by code_simp
  have t: "trim ?mid = lit ''core text''" by code_simp
  have first: "extractCoreStandards ?doc = Inr (trim ?mid) \<and> \<not> sublist SYNC_END (trim ?mid) \<and>
        (\<not> sublist SYNC_START ?mid \<longrightarrow> \<not> sublist SYNC_START (trim ?mid))"
    using core_between_markers [OF s e lt m] ni by blast
  let ?doc2 = "lit ''v1 <!-- SYNC_START --> core <!-- INCLUDE_RULES:START -->x<!-- INCLUDE_RULES:END --> text <!-- SYNC_END --> tail''"
  let ?mid2 = "lit '' core <!-- INCLUDE_RULES:START -->x<!-- INCLUDE_RULES:END --> text ''"
  have a2: "indexOf ?doc2 SYNC_START = 3" by code_simp
  have b2: "indexOf ?doc2 SYNC_END = 89" by code_simp
  have s2: "sublist SYNC_START ?doc2" using a2 indexOf_absent_iff [of ?doc2 SYNC_START] by simp
  have e2: "sublist SYNC_END ?doc2" using b2 indexOf_absent_iff [of ?doc2 SYNC_END] by simp
  have lt2: "indexOf ?doc2 SYNC_START < indexOf ?doc2 SYNC_END" by (simp add: a2 b2)
  have m2: "?mid2 = take (nat (indexOf ?doc2 SYNC_END - (indexOf ?doc2 SYNC_START + 19)))
                 (drop (nat (indexOf ?doc2 SYNC_START + 19)) ?doc2)"
    unfolding a2 b2 by code_simp
  have t2: "trim ?mid2 = lit ''core '' @ INCLUDE_START @ lit ''x'' @ INCLUDE_END @ lit '' text''"
    by code_simp
  have na: "\<not> sublist INCLUDE_START (lit ''core '')"
    unfolding indexOf_absent_iff [symmetric] by code_simp
  have nm: "\<not> sublist INCLUDE_END (lit ''x'')"
    unfolding indexOf_absent_iff [symmetric] by code_simp
  have nb: "\<not> sublist INCLUDE_START (lit '' text'')"
    unfolding indexOf_absent_iff [symmetric] by code_simp
  have nab: "\<not> sublist INCLUDE_START (lit ''core '' @ lit '' text'')"
    unfolding indexOf_absent_iff [symmetric] by code_simp
  have v2: "trim (lit ''core '' @ lit '' text'') = lit ''core  text''" by code_simp
  have second: "extractCoreStandards ?doc2 = Inr (trim (lit ''core '' @ lit '' text'')) \<and>
        \<not> sublist INCLUDE_START (trim (lit ''core '' @ lit '' text''))"
    using core_between_markers [OF s2 e2 lt2 m2, of "lit ''core ''" "lit ''x''" "lit '' text''"]
      t2 na nm nb nab by blast
  show ?thesis
    using first second s e lt ni ns s2 e2 lt2 t2 na nm nb unfolding t v2 by blast
qed

section \<open>The metadata patterns and the date\<close>

lemma backtrack_Some:
  "backtrack k rest post = Some g \<Longrightarrow> k \<le> length (takeWhile cls rest) \<Longrightarrow>
   \<exists>q. rest = g @ post @ q \<and> g \<noteq> [] \<and> list_all cls g"
proof (induction k)
  case 0
  then show ?case by simp
next
  case (Suc k)
  show ?case
  proof (cases "prefix post (drop (Suc k) rest)")
    case True
    with Suc.prems have g: "g = take (Suc k) rest" by simp
    from True obtain q where q: "drop (Suc k) rest = post @ q" by (auto simp: prefix_def)
    have len: "Suc k \<le> length rest"
      using Suc.prems(2) length_takeWhile_le [of cls rest] by simp
    have "rest = g @ post @ q" using q g by (metis append_take_drop_id)
    moreover have "g \<noteq> []" using g len by auto
    moreover have "list_all cls g"
    proof -
      have "take (Suc k) rest = take (Suc k) (takeWhile cls rest @ dropWhile cls rest)"
        by simp
      also have "\<dots> = take (Suc k) (takeWhile cls rest)"
        using Suc.prems(2) by (simp only: take_append) simp
      finally have "g = take (Suc k) (takeWhile cls rest)" using g by simp
      then have "set g \<subseteq> set (takeWhile cls rest)" by (metis set_take_subset)
      then show ?thesis by (auto simp: list_all_iff dest: set_takeWhileD)
    qed
    ultimately show ?thesis by blast
  next
    case False
    with Suc.prems have "backtrack k rest post = Some g" by simp
    then show ?thesis using Suc.IH Suc.prems(2) by simp
  qed
qed

lemma match_at_Some:
  "match_at pre cls post s = Some g \<Longrightarrow>
   \<exists>q. s = pre @ g @ post @ q \<and> g \<noteq> [] \<and> list_all cls g"
proof -
  assume m: "match_at pre cls post s = Some g"
  then have p: "prefix pre s" by (auto simp: match_at_def split: if_splits)
  then have s: "s = pre @ drop (length pre) s" by (auto simp: prefix_def)
  from m p have "backtrack (length (takeWhile cls (drop (length pre) s))) (drop (length pre) s) post = Some g"
    by (simp add: match_at_def Let_def)
  from backtrack_Some [OF this] obtain q where
    "drop (length pre) s = g @ post @ q" "g \<noteq> []" "list_all cls g" by auto
  with s show ?thesis by metis
qed

lemma match_group_Some:
  "match_group pre cls post s = Some g \<Longrightarrow>
   \<exists>p q. s = p @ pre @ g @ post @ q \<and> g \<noteq> [] \<and> list_all cls g"
proof (induction s)
  case Nil
  then show ?case using match_at_Some [of pre cls post "[]" g] by auto
next
  case (Cons c cs)
  show ?case
  proof (cases "match_at pre cls post (c # cs)")
    case (Some g')
    with Cons.prems have "g' = g" by simp
    with Some match_at_Some [of pre cls post "c # cs" g] show ?thesis
      by (metis append_Nil)
  next
    case None
    with Cons.prems have "match_group pre cls post cs = Some g" by simp
    from Cons.IH [OF this] obtain p q where
      "cs = p @ pre @ g @ post @ q" "g \<noteq> []" "list_all cls g" by auto
    then have "c # cs = (c # p) @ pre @ g @ post @ q \<and> g \<noteq> [] \<and> list_all cls g" by simp
    then show ?thesis by blast
  qed
qed

lemma no_marker_no_match:
  "\<not> has_marker opener cls doc \<Longrightarrow> match_group opener cls COMMENT_CLOSE doc = None"
proof (cases "match_group opener cls COMMENT_CLOSE doc")
  case None
  then show ?thesis .
next
  case (Some g)
  assume n: "\<not> has_marker opener cls doc"
  from match_group_Some [OF Some] have "has_marker opener cls doc"
    unfolding has_marker_def by blast
  with n show ?thesis by contradiction
qed

lemma split_not_Nil: "split s sep \<noteq> []"
  by (induction s) (auto split: list.splits)

lemma split_first: "sep \<notin> set a \<Longrightarrow> split (a @ sep # b) sep = a # split b sep"
  by (induction a) (auto split: list.splits)

lemma mod10_cases: "(n::nat) mod 10 \<in> {0, 1, 2, 3, 4, 5, 6, 7, 8, 9}"
proof -
  have "n mod 10 < 10" by simp
  then show ?thesis by (simp only: insert_iff empty_iff) presburger
qed

lemma digit_cases:
  "digit n \<in> {0x30, 0x31, 0x32, 0x33, 0x34, 0x35, 0x36, 0x37, 0x38, 0x39}"
  using mod10_cases [of n] unfolding digit_def by auto

lemma pad_digits: "c \<in> set (pad w n) \<Longrightarrow> is_digit c"
proof (induction w arbitrary: n)
  case 0
  then show ?case by simp
next
  case (Suc w)
  then show ?case using digit_cases [of n] by (auto simp: is_digit_def)
qed

lemma pad_no_T: "0x54 \<notin> set (pad w n)"
  using pad_digits [of "0x54" w n] by (auto simp: is_digit_def)

lemma has_marker_sublist: "has_marker opener cls doc \<Longrightarrow> sublist opener doc"
  unfolding has_marker_def by auto

lemma lit_dash: "lit ''-'' = [0x2D]" by (simp add: lit_def)
lemma lit_T: "lit ''T'' = [0x54]" by (simp add: lit_def)

lemma date_part_first:
  assumes "0 \<le> year t" "year t \<le> 9999"
  shows "split (toISOString t) 0x54 =
         (pad 4 (nat (year t)) @ lit ''-'' @ pad 2 (month t) @ lit ''-'' @ pad 2 (day t))
         # split (pad 2 (hours t) @ lit '':'' @ pad 2 (minutes t) @ lit '':''
              @ pad 2 (seconds t) @ lit ''.'' @ pad 3 (millis t) @ lit ''Z'') 0x54"
proof -
  let ?d = "pad 4 (nat (year t)) @ lit ''-'' @ pad 2 (month t) @ lit ''-'' @ pad 2 (day t)"
  let ?r = "pad 2 (hours t) @ lit '':'' @ pad 2 (minutes t) @ lit '':''
              @ pad 2 (seconds t) @ lit ''.'' @ pad 3 (millis t) @ lit ''Z''"
  have e: "toISOString t = ?d @ 0x54 # ?r"
    using assms by (simp add: toISOString_def lit_T)
  have n: "0x54 \<notin> set ?d"
    using pad_no_T [of 4 "nat (year t)"] pad_no_T [of 2 "month t"] pad_no_T [of 2 "day t"]
    by (simp add: lit_dash)
  show ?thesis unfolding e by (rule split_first [OF n])
qed

lemma backtrack_complete:
  "0 < m \<Longrightarrow> m \<le> k \<Longrightarrow> prefix post (drop m rest) \<Longrightarrow> backtrack k rest post \<noteq> None"
proof (induction k)
  case 0
  then show ?case by simp
next
  case (Suc k)
  show ?case
  proof (cases "m = Suc k")
    case True
    with Suc.prems show ?thesis by simp
  next
    case False
    with Suc.prems have "m \<le> k" by simp
    with Suc show ?thesis by simp
  qed
qed

lemma match_at_complete:
  assumes "g \<noteq> []" "list_all cls g"
  shows "match_at pre cls post (pre @ g @ post @ q) \<noteq> None"
proof -
  have "takeWhile cls (g @ post @ q) = g @ takeWhile cls (post @ q)"
    using assms(2) by (simp add: takeWhile_append2 list_all_iff)
  then have a: "length g \<le> length (takeWhile cls (g @ post @ q))" by simp
  have b: "0 < length g" using assms(1) by simp
  have c: "prefix post (drop (length g) (g @ post @ q))" by simp
  have "backtrack (length (takeWhile cls (g @ post @ q))) (g @ post @ q) post \<noteq> None"
    using backtrack_complete [OF b a c] .
  then show ?thesis by (simp add: match_at_def Let_def)
qed

lemma match_group_complete:
  assumes "g \<noteq> []" "list_all cls g"
  shows "match_group pre cls post (p @ pre @ g @ post @ q) \<noteq> None"
proof (induction p)
  case Nil
  show ?case
    using match_at_complete [OF assms, of pre post q]
    by (cases "pre @ g @ post @ q") auto
next
  case (Cons c p)
  then show ?case by (auto split: option.splits)
qed

lemma has_marker_iff:
  "has_marker opener cls doc \<longleftrightarrow> match_group opener cls COMMENT_CLOSE doc \<noteq> None"
proof
  assume "has_marker opener cls doc"
  then show "match_group opener cls COMMENT_CLOSE doc \<noteq> None"
    unfolding has_marker_def using match_group_complete by blast
next
  assume m: "match_group opener cls COMMENT_CLOSE doc \<noteq> None"
  show "has_marker opener cls doc"
  proof (rule ccontr)
    assume "\<not> has_marker opener cls doc"
    then have "match_group opener cls COMMENT_CLOSE doc = None" by (rule no_marker_no_match)
    with m show False by contradiction
  qed
qed

text \<open>
  Claim C4. For a document that has neither a version marker nor a last-updated
  marker, \<open>extractMetadata\<close> returns exactly the version \<open>1.0.0\<close> and the date of
  the clock's reading (a year of four digits, in UTC) printed as \<open>YYYY-MM-DD\<close>.
\<close>

theorem metadata_defaults:
  assumes "\<not> has_marker VERSION_OPEN version_class doc"
    and "\<not> has_marker LAST_UPDATED_OPEN date_class doc"
    and "0 \<le> year today" and "year today \<le> 9999"
  shows "extractMetadata doc today =
         \<lparr>version = lit ''1.0.0'',
          lastUpdated = pad 4 (nat (year today)) @ lit ''-'' @ pad 2 (month today) @ lit ''-''
            @ pad 2 (day today)\<rparr>"
  unfolding extractMetadata_def Let_def
    no_marker_no_match [OF assms(1)] no_marker_no_match [OF assms(2)]
    date_part_first [OF assms(3,4)]
  by simp

text \<open>
  The theorem of C4 at a document whose version comment holds no version number.
\<close>

theorem metadata_defaults_witness:
  "\<not> has_marker VERSION_OPEN version_class (lit ''# Rules <!-- VERSION: x -->'') \<and>
   \<not> has_marker LAST_UPDATED_OPEN date_class (lit ''# Rules <!-- VERSION: x -->'') \<and>
   extractMetadata (lit ''# Rules <!-- VERSION: x -->'')
     \<lparr>year = 2026, month = 11, day = 3, hours = 4, minutes = 5, seconds = 6, millis = 7\<rparr> =
     \<lparr>version = lit ''1.0.0'', lastUpdated = lit ''2026-11-03''\<rparr>"
proof -
  let ?doc = "lit ''# Rules <!-- VERSION: x -->''"
  let ?t = "\<lparr>year = 2026, month = 11, day = 3, hours = 4, minutes = 5, seconds = 6, millis = 7\<rparr>"
  have "match_group VERSION_OPEN version_class COMMENT_CLOSE ?doc = None" by code_simp
  then have v: "\<not> has_marker VERSION_OPEN version_class ?doc"
    by (simp add: has_marker_iff)
  have "indexOf ?doc LAST_UPDATED_OPEN = - 1" by code_simp
  then have u: "\<not> has_marker LAST_UPDATED_OPEN date_class ?doc"
    using has_marker_sublist indexOf_absent_iff by blast
  have d: "pad 4 (nat 2026) @ lit ''-'' @ pad 2 11 @ lit ''-'' @ pad 2 3 = lit ''2026-11-03''"
    by code_simp
  show ?thesis
    using metadata_defaults [OF v u, of ?t] v u d by simp
qed

section \<open>The rendered texts\<close>

lemma join_Cons_Cons: "join ((c # l) # ls) sep = c # join (l # ls) sep"
  by (cases ls) auto

lemma join_split: "join (split s sep) [sep] = s"
proof (induction s)
  case Nil
  then show ?case by simp
next
  case (Cons c cs)
  show ?case
  proof (cases "c = sep")
    case True
    obtain l ls where "split cs sep = l # ls" using split_not_Nil [of cs sep] by (cases "split cs sep") auto
    with True Cons show ?thesis by simp
  next
    case False
    obtain l ls where "split cs sep = l # ls" using split_not_Nil [of cs sep] by (cases "split cs sep") auto
    with False Cons show ?thesis by (simp add: join_Cons_Cons)
  qed
qed

lemma split_head_tail:
  "split s sep =
   takeWhile (\<lambda>c. c \<noteq> sep) s #
   (case dropWhile (\<lambda>c. c \<noteq> sep) s of [] \<Rightarrow> [] | _ # r \<Rightarrow> split r sep)"
proof (induction s)
  case Nil
  then show ?case by simp
next
  case (Cons c cs)
  then show ?case by (cases "c = sep") auto
qed

lemma join_tail_split:
  "split s 0x0A = l0 # ls \<Longrightarrow> l0 = takeWhile (\<lambda>c. c \<noteq> 0x0A) s \<and> join ls nl = firstLineRemoved s"
proof -
  assume a: "split s 0x0A = l0 # ls"
  have b: "split s 0x0A = takeWhile (\<lambda>c. c \<noteq> 0x0A) s #
       (case dropWhile (\<lambda>c. c \<noteq> 0x0A) s of [] \<Rightarrow> [] | _ # r \<Rightarrow> split r 0x0A)"
    by (rule split_head_tail)
  from a b have l0: "l0 = takeWhile (\<lambda>c. c \<noteq> 0x0A) s"
    and ls: "ls = (case dropWhile (\<lambda>c. c \<noteq> 0x0A) s of [] \<Rightarrow> [] | _ # r \<Rightarrow> split r 0x0A)"
    by simp_all
  have "join ls nl = firstLineRemoved s"
  proof (cases "dropWhile (\<lambda>c. c \<noteq> 0x0A) s")
    case Nil
    then show ?thesis unfolding ls firstLineRemoved_def by (simp only: list.case join.simps drop_Nil)
  next
    case (Cons a r)
    then show ?thesis
      unfolding ls firstLineRemoved_def nl_def by (simp only: list.case join_split) simp
  qed
  with l0 show ?thesis by simp
qed

lemma lit_hash_space: "lit ''# '' = [0x23, 0x20]" by (simp add: lit_def)
lemma lit_hash: "lit ''#'' = [0x23]" by (simp add: lit_def)

lemma first_line_heading:
  "startsWith (takeWhile (\<lambda>c. c \<noteq> 0x0A) s) (lit ''# '') \<longleftrightarrow> startsWith s (lit ''# '')"
proof (cases s)
  case Nil
  then show ?thesis by (simp add: startsWith_def)
next
  case (Cons a s')
  then show ?thesis
    by (cases s') (auto simp: startsWith_def lit_hash_space)
qed

lemma heading_hash: "startsWith s (lit ''# '') \<Longrightarrow> startsWith s (lit ''#'')"
  by (auto simp: startsWith_def lit_hash_space lit_hash prefix_def)

lemma frontmatter_eq:
  "frontmatter description =
   lit ''---'' @ nl @ lit ''description: '' @ description @ nl
   @ lit ''globs: '' @ sq @ lit ''*.ts,*.tsx,*.js,*.jsx'' @ sq @ nl
   @ lit ''alwaysApply: true'' @ nl @ lit ''---'' @ nl @ nl"
  by (simp add: frontmatter_def unlines_def)

text \<open>
  Claim C6, amended. The per-topic text begins with the frontmatter block: a line of
  three hyphens, the description, the globs line with the single-quoted four patterns,
  \<open>alwaysApply: true\<close> and a closing line of three hyphens, followed by an empty
  line. The body behind it is the content trimmed; when the trimmed content begins
  with \<open># \<close>, its first line is removed and the rest is trimmed again.
\<close>

theorem mdc_content_shape:
  "generateMdcContent ruleContent ruleName description =
   lit ''---'' @ nl @ lit ''description: '' @ description @ nl
   @ lit ''globs: '' @ sq @ lit ''*.ts,*.tsx,*.js,*.jsx'' @ sq @ nl
   @ lit ''alwaysApply: true'' @ nl @ lit ''---'' @ nl @ nl
   @ (if startsWith (trim ruleContent) (lit ''# '')
      then trim (firstLineRemoved (trim ruleContent))
      else trim ruleContent)"
proof -
  obtain l0 ls where sp: "split (trim ruleContent) 0x0A = l0 # ls"
    using split_not_Nil [of "trim ruleContent" "0x0A"] by (cases "split (trim ruleContent) 0x0A") auto
  note jt = join_tail_split [OF sp]
  have "generateMdcContent ruleContent ruleName description =
        frontmatter description @
        (if startsWith (trim ruleContent) (lit ''# '')
         then trim (firstLineRemoved (trim ruleContent))
         else trim ruleContent)"
    using jt heading_hash [of "trim ruleContent"] first_line_heading [of "trim ruleContent"]
    by (auto simp: generateMdcContent_def Let_def sp)
  then show ?thesis by (simp add: frontmatter_eq)
qed

text \<open>
  Claim C6, as stated, fails: the body is not the original content with at most a
  heading line removed, because the white space at both ends is removed too. For a file
  with a heading, an empty line, a line of text and a final newline the body is the
  line of text alone.
\<close>

theorem mdc_body_counterexample:
  "generateMdcContent (lit ''# Title\<newline>\<newline>Body\<newline>'') (lit ''Title'') (lit ''d'') =
     frontmatter (lit ''d'') @ lit ''Body'' \<and>
   \<not> spec_body (lit ''# Title\<newline>\<newline>Body\<newline>'') (lit ''Body'')"
  by code_simp

lemma appendLines_eq:
  "appendLines line rs acc = acc @ concat (map line (filter (\<lambda>r. truthy (content r)) rs))"
  by (induction rs arbitrary: acc) auto

lemma generateCopilotInstructions_eq:
  "generateCopilotInstructions core rules metadata t =
   aggregateDoc (lit ''# GitHub Copilot Instructions'') core (version metadata) (toISOString t)
     (filter (\<lambda>r. truthy (content r)) rules)"
  by (simp add: generateCopilotInstructions_def aggregateDoc_def Let_def appendLines_eq)

lemma generateReplitInstructions_eq:
  "generateReplitInstructions core rules metadata t =
   aggregateDoc (lit ''# Replit AI Instructions'') core (version metadata) (toISOString t)
     (filter (\<lambda>r. truthy (content r)) rules)"
  by (simp add: generateReplitInstructions_def aggregateDoc_def Let_def appendLines_eq)

lemma generateCursorMainRules_eq:
  "generateCursorMainRules core rules metadata =
   cursorDoc core (filter (\<lambda>r. truthy (content r)) rules)"
  by (simp add: generateCursorMainRules_def cursorDoc_def Let_def appendLines_eq)










section \<open>The run: what is written\<close>

lemma written_log [simp]: "written (log e r) = written r"
  by (simp add: log_def)

lemma written_writeFile [simp]: "written (writeFile p c r) = written r @ [(p, c)]"
  by (simp add: writeFile_def)

lemma loadRules_result:
  "loadRules fs topics r = (rules, r') \<Longrightarrow>
   rules = map (withContent fs) (filter (loads fs) topics) \<and> written r' = written r"
proof (induction topics arbitrary: r rules r')
  case Nil
  then show ?case by simp
next
  case (Cons t ts)
  obtain v r1 where rf: "readFile fs (path_join RULES_DIR (file_name t)) r = (v, r1)"
    by (cases "readFile fs (path_join RULES_DIR (file_name t)) r")
  then have v: "v = fs (path_join RULES_DIR (file_name t))" and w1: "written r1 = written r"
    by (auto simp: readFile_def split: option.splits)
  show ?case
  proof (cases "truthy v")
    case True
    obtain rs r2 where l: "loadRules fs ts (log (ReadRule (name t)) r1) = (rs, r2)"
      by (cases "loadRules fs ts (log (ReadRule (name t)) r1)")
    from Cons.IH [OF l] have "rs = map (withContent fs) (filter (loads fs) ts)"
      and "written r2 = written r" by (simp_all add: w1)
    moreover from Cons.prems rf True l
    have "rules = \<lparr>file_name = file_name t, name = name t, key = key t, content = v\<rparr> # rs"
      and "r' = r2" by (simp_all add: Let_def)
    ultimately show ?thesis using True v
      by (simp add: loads_def [of fs t] withContent_def [of fs t])
  next
    case False
    with Cons.prems rf have l: "loadRules fs ts (log (SkippedRule (name t)) r1) = (rules, r')"
      by (simp add: Let_def)
    from Cons.IH [OF l] False v w1 show ?thesis by (simp add: loads_def [of fs t])
  qed
qed

lemma loadRules_fst:
  "fst (loadRules fs topics r) = map (withContent fs) (filter (loads fs) topics)"
  using loadRules_result [of fs topics r] by (cases "loadRules fs topics r") simp

lemma loadRules_written: "written (snd (loadRules fs topics r)) = written r"
  using loadRules_result [of fs topics r] by (cases "loadRules fs topics r") simp

lemma withContent_sel [simp]:
  "content (withContent fs t) = fs (path_join RULES_DIR (file_name t))"
  "name (withContent fs t) = name t"
  "key (withContent fs t) = key t"
  "file_name (withContent fs t) = file_name t"
  by (simp_all add: withContent_def)

lemma writeRuleFiles_loaded:
  "writeRuleFiles (map (withContent fs) (filter (loads fs) topics)) r = (c, r') \<Longrightarrow>
   c = Returned \<and> written r' = written r @ List.map_filter (topicFile fs) topics"
proof (induction topics arbitrary: r)
  case Nil
  then show ?case by (simp add: List.map_filter_simps)
next
  case (Cons t ts)
  show ?case
  proof (cases "loads fs t")
    case False
    then have "topicFile fs t = None"
      by (auto simp: loads_def topicFile_def truthy_def split: option.splits)
    with False Cons show ?thesis by (simp add: List.map_filter_simps)
  next
    case True
    then obtain s where s: "fs (path_join RULES_DIR (file_name t)) = Some s" "s \<noteq> []"
      by (auto simp: loads_def truthy_def split: option.splits)
    let ?f = "(path_join CURSOR_RULES_DIR (key t @ lit ''.mdc''),
               generateMdcContent s (name t)
                 (name t @ lit '' rules for React TypeScript development''))"
    have tf: "topicFile fs t = Some ?f" using s by (simp add: topicFile_def)
    from Cons.prems True s
    have "writeRuleFiles (map (withContent fs) (filter (loads fs) ts))
            (writeFile (fst ?f) (snd ?f) r) = (c, r')"
      by (simp add: Let_def)
    from Cons.IH [OF this] show ?thesis
      by (simp add: List.map_filter_simps tf)
  qed
qed

lemma filter_loaded:
  "filter (\<lambda>r. truthy (content r)) (map (withContent fs) (filter (loads fs) topics)) =
   map (withContent fs) (filter (loads fs) topics)"
  by (induction topics) (auto simp: loads_def)

lemma line_withContent:
  "aggregateLink (withContent fs t) = aggregateLink t"
  "aggregatePlain (withContent fs t) = aggregatePlain t"
  "cursorSee (withContent fs t) = cursorSee t"
  "cursorFrom (withContent fs t) = cursorFrom t"
  by (simp_all add: aggregateLink_def aggregatePlain_def cursorSee_def cursorFrom_def)

lemma aggregateDoc_withContent:
  "aggregateDoc title core ver now (map (withContent fs) ts) = aggregateDoc title core ver now ts"
  by (simp add: aggregateDoc_def line_withContent comp_def)

lemma cursorDoc_withContent: "cursorDoc core (map (withContent fs) ts) = cursorDoc core ts"
  by (simp add: cursorDoc_def line_withContent comp_def)

lemma mainFor_success:
  assumes "fs AI_INSTRUCTIONS_FILE = Some doc" and "doc \<noteq> []"
    and "extractCoreStandards doc = Inr core"
  shows "fst (mainFor topics fs clk) = 0 \<and>
         written (snd (mainFor topics fs clk)) =
           [(COPILOT_FILE,
             aggregateDoc (lit ''# GitHub Copilot Instructions'') core
               (version (extractMetadata doc (t_metadata clk))) (toISOString (t_copilot clk))
               (filter (loads fs) topics)),
            (REPLIT_FILE,
             aggregateDoc (lit ''# Replit AI Instructions'') core
               (version (extractMetadata doc (t_metadata clk))) (toISOString (t_replit clk))
               (filter (loads fs) topics)),
            (path_join CURSOR_RULES_DIR (lit ''project-standards.mdc''),
             cursorDoc core (filter (loads fs) topics))]
           @ List.map_filter (topicFile fs) topics"
proof -
  define r3 where
    "r3 = log ExtractedCore
            (log (VersionInfo (version (extractMetadata doc (t_metadata clk)))
                    (lastUpdated (extractMetadata doc (t_metadata clk))))
               (log Starting \<lparr>console = [], written = []\<rparr>))"
  obtain rules r4 where l: "loadRules fs topics r3 = (rules, r4)" by (cases "loadRules fs topics r3")
  have rules: "rules = map (withContent fs) (filter (loads fs) topics)"
    using loadRules_fst [of fs topics r3] l by simp
  have w4: "written r4 = []"
    using loadRules_written [of fs topics r3] l by (simp add: r3_def)
  define r8 where
    "r8 = writeFile (path_join CURSOR_RULES_DIR (lit ''project-standards.mdc''))
            (generateCursorMainRules core rules (extractMetadata doc (t_metadata clk)))
            (log (Generating CursorMain)
               (writeFile REPLIT_FILE
                  (generateReplitInstructions core rules (extractMetadata doc (t_metadata clk))
                     (t_replit clk))
                  (log (Generating Replit)
                     (writeFile COPILOT_FILE
                        (generateCopilotInstructions core rules
                           (extractMetadata doc (t_metadata clk)) (t_copilot clk))
                        (log (Generating Copilot) (log (LoadedCount (length rules)) r4))))))"
  obtain c r9 where wr: "writeRuleFiles rules (log (Generating CursorIndividual) r8) = (c, r9)"
    by (cases "writeRuleFiles rules (log (Generating CursorIndividual) r8)")
  from writeRuleFiles_loaded [OF wr [unfolded rules]]
  have c: "c = Returned"
    and w9: "written r9 = written r8 @ List.map_filter (topicFile fs) topics"
    by simp_all
  have s: "syncRulesFor topics fs clk = (Returned, log (Completed (length rules)) r9)"
    using assms l wr c
    by (simp add: syncRulesFor_def readFile_def Let_def r3_def r8_def)
  have w8: "written r8 =
      [(COPILOT_FILE, generateCopilotInstructions core rules
          (extractMetadata doc (t_metadata clk)) (t_copilot clk)),
       (REPLIT_FILE, generateReplitInstructions core rules
          (extractMetadata doc (t_metadata clk)) (t_replit clk)),
       (path_join CURSOR_RULES_DIR (lit ''project-standards.mdc''),
        generateCursorMainRules core rules (extractMetadata doc (t_metadata clk)))]"
    by (simp add: r8_def w4)
  show ?thesis
    by (simp add: mainFor_def s w9 w8 generateCopilotInstructions_eq
        generateReplitInstructions_eq generateCursorMainRules_eq rules filter_loaded
        aggregateDoc_withContent cursorDoc_withContent)
qed

lemma topicFile_None_iff: "topicFile fs t = None \<longleftrightarrow> \<not> loads fs t"
  by (auto simp: topicFile_def loads_def truthy_def split: option.splits)

lemma topicFile_path:
  "topicFile fs t = Some f \<Longrightarrow> fst f = path_join CURSOR_RULES_DIR (key t @ lit ''.mdc'')"
  by (auto simp: topicFile_def split: option.splits if_splits)

lemma topicFiles_paths:
  "map fst (List.map_filter (topicFile fs) ts) =
   map (\<lambda>t. path_join CURSOR_RULES_DIR (key t @ lit ''.mdc'')) (filter (loads fs) ts)"
proof (induction ts)
  case Nil
  then show ?case by (simp add: List.map_filter_simps)
next
  case (Cons t ts)
  show ?case
  proof (cases "topicFile fs t")
    case None
    with Cons show ?thesis
      using topicFile_None_iff [of fs t] by (simp add: List.map_filter_simps)
  next
    case (Some f)
    with Cons show ?thesis
      using topicFile_None_iff [of fs t] topicFile_path [OF Some]
      by (simp add: List.map_filter_simps)
  qed
qed

text \<open>
  Claim C10. For every file system in which the canonical document is valid, the run
  writes the three aggregate files and then one file for each topic that loads, and
  the lists of the three aggregate files and the per-topic files all follow the topics
  of \<open>RULE_FILES\<close> that load, in the order of the table.
\<close>

theorem topics_in_table_order:
  assumes "fs AI_INSTRUCTIONS_FILE = Some doc" and "doc \<noteq> []"
    and "extractCoreStandards doc = Inr core"
  shows "written (snd (main fs clk)) =
           [(COPILOT_FILE,
             aggregateDoc (lit ''# GitHub Copilot Instructions'') core
               (version (extractMetadata doc (t_metadata clk))) (toISOString (t_copilot clk))
               (filter (loads fs) RULE_FILES)),
            (REPLIT_FILE,
             aggregateDoc (lit ''# Replit AI Instructions'') core
               (version (extractMetadata doc (t_metadata clk))) (toISOString (t_replit clk))
               (filter (loads fs) RULE_FILES)),
            (path_join CURSOR_RULES_DIR (lit ''project-standards.mdc''),
             cursorDoc core (filter (loads fs) RULE_FILES))]
           @ List.map_filter (topicFile fs) RULE_FILES \<and>
         map fst (List.map_filter (topicFile fs) RULE_FILES) =
           map (\<lambda>t. path_join CURSOR_RULES_DIR (key t @ lit ''.mdc''))
             (filter (loads fs) RULE_FILES)"
  using mainFor_success [where fs = fs and doc = doc and core = core and topics = RULE_FILES
      and clk = clk] assms topicFiles_paths [of fs RULE_FILES]
  by (simp add: main_def)

lemma example_doc_core: "extractCoreStandards example_doc = Inr (lit ''core text'')"
  unfolding example_doc_def by code_simp

lemma example_doc_ne: "example_doc \<noteq> []"
  by (simp add: example_doc_def lit_def)

lemma example_fs_doc: "example_fs AI_INSTRUCTIONS_FILE = Some example_doc"
  by (simp add: example_fs_def AI_INSTRUCTIONS_FILE_def RULES_DIR_def path_join_def lit_def)

lemma example_fs_loads:
  "filter (loads example_fs) RULE_FILES =
     [\<lparr>file_name = lit ''folder-structure.md'', name = lit ''Folder Structure'',
        key = lit ''folder-structure''\<rparr>,
      \<lparr>file_name = lit ''testing.md'', name = lit ''Testing'', key = lit ''testing''\<rparr>]"
  by (simp add: loads_def truthy_def example_fs_def RULE_FILES_def AI_INSTRUCTIONS_FILE_def
      RULES_DIR_def path_join_def lit_def)

text \<open>
  The theorem of C10 at the example file system, where the second and the third topic
  of the table load.
\<close>

theorem topics_in_table_order_witness:
  "example_fs AI_INSTRUCTIONS_FILE = Some example_doc \<and>
   example_doc \<noteq> [] \<and>
   extractCoreStandards example_doc = Inr (lit ''core text'') \<and>
   map fst (written (snd (main example_fs example_clock))) =
     [COPILOT_FILE, REPLIT_FILE, path_join CURSOR_RULES_DIR (lit ''project-standards.mdc''),
      path_join CURSOR_RULES_DIR (lit ''folder-structure.mdc''),
      path_join CURSOR_RULES_DIR (lit ''testing.mdc'')]"
proof -
  have "lit ''folder-structure'' @ lit ''.mdc'' = lit ''folder-structure.mdc''"
    and "lit ''testing'' @ lit ''.mdc'' = lit ''testing.mdc''"
    by (simp_all add: lit_def)
  then show ?thesis
    using topics_in_table_order [where fs = example_fs and doc = example_doc
        and core = "lit ''core text''" and clk = example_clock]
      example_fs_doc example_doc_ne example_doc_core
    by (simp add: example_fs_loads)
qed

lemma filter_one_missing:
  assumes "\<not> P m" and "\<forall>t \<in> set (b @ a). P t"
  shows "filter P (b @ m # a) = b @ a"
  using assms by (simp add: filter_id_conv)

lemma map_filter_one_missing:
  assumes "f m = None"
  shows "List.map_filter f (b @ m # a) = List.map_filter f (b @ a)"
  using assms by (simp add: List.map_filter_def)

lemma length_topicFiles:
  "length (List.map_filter (topicFile fs) ts) = length (filter (loads fs) ts)"
  using topicFiles_paths [of fs ts, THEN arg_cong, of length] by simp

text \<open>
  Claim C5, amended. For every topic list in which the file of one topic cannot be
  read and every other topic has a non-empty file, and a valid canonical document, the
  run ends with exit code 0, the lists of the three aggregate files name exactly the
  other topics, in order, and one per-topic file is written for each of them.
\<close>

theorem one_missing_topic:
  assumes "fs AI_INSTRUCTIONS_FILE = Some doc" and "doc \<noteq> []"
    and "extractCoreStandards doc = Inr core"
    and "topics = before @ missing # after"
    and "fs (path_join RULES_DIR (file_name missing)) = None"
    and "\<forall>t \<in> set (before @ after). loads fs t"
  shows "fst (mainFor topics fs clk) = 0 \<and>
         written (snd (mainFor topics fs clk)) =
           [(COPILOT_FILE,
             aggregateDoc (lit ''# GitHub Copilot Instructions'') core
               (version (extractMetadata doc (t_metadata clk))) (toISOString (t_copilot clk))
               (before @ after)),
            (REPLIT_FILE,
             aggregateDoc (lit ''# Replit AI Instructions'') core
               (version (extractMetadata doc (t_metadata clk))) (toISOString (t_replit clk))
               (before @ after)),
            (path_join CURSOR_RULES_DIR (lit ''project-standards.mdc''),
             cursorDoc core (before @ after))]
           @ List.map_filter (topicFile fs) (before @ after) \<and>
         map fst (List.map_filter (topicFile fs) (before @ after)) =
           map (\<lambda>t. path_join CURSOR_RULES_DIR (key t @ lit ''.mdc'')) (before @ after)"
proof -
  have m: "\<not> loads fs missing" using assms(5) by (simp add: loads_def truthy_def)
  have f: "filter (loads fs) topics = before @ after"
    unfolding assms(4) using m assms(6) by (rule filter_one_missing)
  have f': "filter (loads fs) (before @ after) = before @ after"
    using assms(6) by (simp add: filter_id_conv)
  have t: "List.map_filter (topicFile fs) topics = List.map_filter (topicFile fs) (before @ after)"
    unfolding assms(4) using m by (intro map_filter_one_missing) (simp add: topicFile_None_iff)
  show ?thesis
    using mainFor_success [where fs = fs and doc = doc and core = core and topics = topics
        and clk = clk] assms(1-3) topicFiles_paths [of fs "before @ after"]
    by (simp only: f f' t) simp
qed

lemma example_topics_split:
  "example_topics =
     [\<lparr>file_name = lit ''folder-structure.md'', name = lit ''Folder Structure'',
        key = lit ''folder-structure''\<rparr>,
      \<lparr>file_name = lit ''testing.md'', name = lit ''Testing'', key = lit ''testing''\<rparr>]
     @ \<lparr>file_name = lit ''routing.md'', name = lit ''Routing'', key = lit ''routing''\<rparr> # []"
  by (simp add: example_topics_def)

lemma example_fs_files:
  "example_fs (path_join RULES_DIR (lit ''routing.md'')) = None"
  "loads example_fs \<lparr>file_name = lit ''folder-structure.md'', name = lit ''Folder Structure'',
        key = lit ''folder-structure''\<rparr>"
  "loads example_fs \<lparr>file_name = lit ''testing.md'', name = lit ''Testing'', key = lit ''testing''\<rparr>"
  by (simp_all add: loads_def truthy_def example_fs_def AI_INSTRUCTIONS_FILE_def
      RULES_DIR_def path_join_def lit_def)

text \<open>
  The theorem of C5 at three topics of which the last has no file.
\<close>

theorem one_missing_topic_witness:
  "example_fs AI_INSTRUCTIONS_FILE = Some example_doc \<and>
   example_doc \<noteq> [] \<and>
   extractCoreStandards example_doc = Inr (lit ''core text'') \<and>
   example_fs (path_join RULES_DIR (lit ''routing.md'')) = None \<and>
   loads example_fs \<lparr>file_name = lit ''folder-structure.md'', name = lit ''Folder Structure'',
        key = lit ''folder-structure''\<rparr> \<and>
   loads example_fs \<lparr>file_name = lit ''testing.md'', name = lit ''Testing'', key = lit ''testing''\<rparr> \<and>
   fst (mainFor example_topics example_fs example_clock) = 0 \<and>
   map fst (written (snd (mainFor example_topics example_fs example_clock))) =
     [COPILOT_FILE, REPLIT_FILE, path_join CURSOR_RULES_DIR (lit ''project-standards.mdc''),
      path_join CURSOR_RULES_DIR (lit ''folder-structure.mdc''),
      path_join CURSOR_RULES_DIR (lit ''testing.mdc'')]"
proof -
  have k: "lit ''folder-structure'' @ lit ''.mdc'' = lit ''folder-structure.mdc''"
    "lit ''testing'' @ lit ''.mdc'' = lit ''testing.mdc''"
    by (simp_all add: lit_def)
  have "fst (mainFor example_topics example_fs example_clock) = 0 \<and>
        map fst (written (snd (mainFor example_topics example_fs example_clock))) =
        [COPILOT_FILE, REPLIT_FILE, path_join CURSOR_RULES_DIR (lit ''project-standards.mdc''),
         path_join CURSOR_RULES_DIR (lit ''folder-structure.mdc''),
         path_join CURSOR_RULES_DIR (lit ''testing.mdc'')]"
    using one_missing_topic [where fs = example_fs and doc = example_doc
        and core = "lit ''core text''" and topics = example_topics and clk = example_clock
        and before = "[\<lparr>file_name = lit ''folder-structure.md'', name = lit ''Folder Structure'',
            key = lit ''folder-structure''\<rparr>,
          \<lparr>file_name = lit ''testing.md'', name = lit ''Testing'', key = lit ''testing''\<rparr>]"
        and missing = "\<lparr>file_name = lit ''routing.md'', name = lit ''Routing'', key = lit ''routing''\<rparr>"
        and after = "[]"]
      example_fs_doc example_doc_ne example_doc_core example_topics_split example_fs_files
    by (simp add: k)
  then show ?thesis
    using example_fs_doc example_doc_ne example_doc_core example_fs_files by simp
qed

lemma empty_file_fs_doc: "empty_file_fs AI_INSTRUCTIONS_FILE = Some example_doc"
  by (simp add: empty_file_fs_def AI_INSTRUCTIONS_FILE_def RULES_DIR_def path_join_def lit_def)

lemma empty_file_fs_loads:
  "filter (loads empty_file_fs) RULE_FILES =
   filter (\<lambda>t. key t \<noteq> lit ''testing'' \<and> key t \<noteq> lit ''routing'') RULE_FILES"
  by (simp add: loads_def truthy_def empty_file_fs_def RULE_FILES_def AI_INSTRUCTIONS_FILE_def
      RULES_DIR_def path_join_def lit_def)

text \<open>
  Claim C5, as stated, fails: with the file of one topic missing and the file of
  another topic present but empty, the run lists five of the seven topics, not the six
  that are present.
\<close>

theorem empty_topic_file_counterexample:
  "map (\<lambda>t. empty_file_fs (path_join RULES_DIR (file_name t)) = None) RULE_FILES =
     [False, False, True, False, False, False, False] \<and>
   empty_file_fs (path_join RULES_DIR (lit ''routing.md'')) = Some [] \<and>
   fst (main empty_file_fs example_clock) = 0 \<and>
   length (written (snd (main empty_file_fs example_clock))) = 3 + 5 \<and>
   snd (written (snd (main empty_file_fs example_clock)) ! 2) =
     cursorDoc (lit ''core text'')
       (filter (\<lambda>t. key t \<noteq> lit ''testing'' \<and> key t \<noteq> lit ''routing'') RULE_FILES)"
proof -
  have a: "map (\<lambda>t. empty_file_fs (path_join RULES_DIR (file_name t)) = None) RULE_FILES =
     [False, False, True, False, False, False, False]"
    by (simp add: empty_file_fs_def RULE_FILES_def AI_INSTRUCTIONS_FILE_def
        RULES_DIR_def path_join_def lit_def)
  have b: "empty_file_fs (path_join RULES_DIR (lit ''routing.md'')) = Some []"
    by (simp add: empty_file_fs_def AI_INSTRUCTIONS_FILE_def RULES_DIR_def path_join_def lit_def)
  have n: "length (filter (\<lambda>t. key t \<noteq> lit ''testing'' \<and> key t \<noteq> lit ''routing'') RULE_FILES) = 5"
    by (simp add: RULE_FILES_def lit_def)
  have m: "fst (main empty_file_fs example_clock) = 0 \<and>
      written (snd (main empty_file_fs example_clock)) =
           [(COPILOT_FILE,
             aggregateDoc (lit ''# GitHub Copilot Instructions'') (lit ''core text'')
               (version (extractMetadata example_doc (t_metadata example_clock)))
               (toISOString (t_copilot example_clock))
               (filter (loads empty_file_fs) RULE_FILES)),
            (REPLIT_FILE,
             aggregateDoc (lit ''# Replit AI Instructions'') (lit ''core text'')
               (version (extractMetadata example_doc (t_metadata example_clock)))
               (toISOString (t_replit example_clock))
               (filter (loads empty_file_fs) RULE_FILES)),
            (path_join CURSOR_RULES_DIR (lit ''project-standards.mdc''),
             cursorDoc (lit ''core text'') (filter (loads empty_file_fs) RULE_FILES))]
           @ List.map_filter (topicFile empty_file_fs) RULE_FILES"
    using mainFor_success [where fs = empty_file_fs and doc = example_doc
        and core = "lit ''core text''" and topics = RULE_FILES and clk = example_clock]
      empty_file_fs_doc example_doc_ne example_doc_core
    by (simp add: main_def)
  have l: "length (List.map_filter (topicFile empty_file_fs) RULE_FILES) = 5"
    using length_topicFiles [of empty_file_fs RULE_FILES] n by (simp add: empty_file_fs_loads)
  show ?thesis
    using a b m l by (simp add: empty_file_fs_loads)
qed

section \<open>Runs compared\<close>

lemma aggregateDoc_stamp:
  "\<exists>pre post. \<forall>now.
     aggregateDoc title core ver now ts = pre @ lit ''**Last Updated:** '' @ now @ post"
proof (intro exI allI)
  fix now
  show "aggregateDoc title core ver now ts =
        (title @ nl @ nl @ lit ''**'' @ warn @ lit '' IMPORTANT: This file is auto-generated from ''
           @ bt @ lit ''AI_INSTRUCTIONS.md'' @ bt @ lit '' and '' @ bt @ lit ''docs/rules/*.md''
           @ bt @ lit ''. Do not edit manually.**'' @ nl @ nl
           @ lit ''**Rules Version:** '' @ ver @ lit ''  '' @ nl)
        @ lit ''**Last Updated:** '' @ now
        @ (nl @ nl @ core @ nl @ nl @ lit ''## Detailed Rules'' @ nl @ nl
           @ lit ''For comprehensive guidelines, refer to the following rule files in '' @ bt
           @ lit ''docs/rules/'' @ bt @ lit '':'' @ nl @ nl
           @ concat (map aggregateLink ts) @ aggregateMiddle
           @ concat (map aggregatePlain ts) @ aggregateTail)"
    by (simp add: aggregateDoc_def aggregateHead_def unlines_def)
qed

lemma aggregateDoc_same_but_timestamp:
  "same_but_timestamp (aggregateDoc title core ver (toISOString t) ts)
     (aggregateDoc title core ver (toISOString t') ts)"
proof -
  obtain pre post where
    "\<forall>now. aggregateDoc title core ver now ts = pre @ lit ''**Last Updated:** '' @ now @ post"
    using aggregateDoc_stamp by blast
  then show ?thesis unfolding same_but_timestamp_def by blast
qed

lemma version_clock_free:
  "version (extractMetadata doc t) = version (extractMetadata doc t')"
  by (simp add: extractMetadata_def Let_def)

lemma rerun_same_files:
  "fst (mainFor topics fs clk) = fst (mainFor topics fs clk') \<and>
   (written (snd (mainFor topics fs clk)) = [] \<and> written (snd (mainFor topics fs clk')) = [] \<or>
    (\<exists>c1 c1' c2 c2' rest.
       written (snd (mainFor topics fs clk)) = (COPILOT_FILE, c1) # (REPLIT_FILE, c2) # rest \<and>
       written (snd (mainFor topics fs clk')) = (COPILOT_FILE, c1') # (REPLIT_FILE, c2') # rest \<and>
       same_but_timestamp c1 c1' \<and> same_but_timestamp c2 c2'))"
proof (cases "fs AI_INSTRUCTIONS_FILE = None \<or> fs AI_INSTRUCTIONS_FILE = Some []")
  case True
  from True mainFor_unreadable [where fs = fs and topics = topics and clk = clk]
    mainFor_unreadable [where fs = fs and topics = topics and clk = clk']
  show ?thesis by simp
next
  case False
  then obtain doc where doc: "fs AI_INSTRUCTIONS_FILE = Some doc" "doc \<noteq> []" by auto
  show ?thesis
  proof (cases "extractCoreStandards doc")
    case (Inl e)
    from doc Inl
      mainFor_malformed [where fs = fs and doc = doc and e = e and topics = topics and clk = clk]
      mainFor_malformed [where fs = fs and doc = doc and e = e and topics = topics and clk = clk']
    show ?thesis by simp
  next
    case (Inr core)
    have a: "fst (mainFor topics fs clk) = 0 \<and>
         written (snd (mainFor topics fs clk)) =
           [(COPILOT_FILE,
             aggregateDoc (lit ''# GitHub Copilot Instructions'') core
               (version (extractMetadata doc (t_metadata clk))) (toISOString (t_copilot clk))
               (filter (loads fs) topics)),
            (REPLIT_FILE,
             aggregateDoc (lit ''# Replit AI Instructions'') core
               (version (extractMetadata doc (t_metadata clk))) (toISOString (t_replit clk))
               (filter (loads fs) topics)),
            (path_join CURSOR_RULES_DIR (lit ''project-standards.mdc''),
             cursorDoc core (filter (loads fs) topics))]
           @ List.map_filter (topicFile fs) topics" for clk
      using mainFor_success [where fs = fs and doc = doc and core = core and topics = topics
        and clk = clk] doc Inr by simp
    note b = a [of clk']
    let ?v = "version (extractMetadata doc (t_metadata clk))"
    have v: "version (extractMetadata doc (t_metadata clk')) = ?v"
      by (rule version_clock_free)
    have "same_but_timestamp
            (aggregateDoc (lit ''# GitHub Copilot Instructions'') core ?v
               (toISOString (t_copilot clk)) (filter (loads fs) topics))
            (aggregateDoc (lit ''# GitHub Copilot Instructions'') core ?v
               (toISOString (t_copilot clk')) (filter (loads fs) topics))"
      and "same_but_timestamp
            (aggregateDoc (lit ''# Replit AI Instructions'') core ?v
               (toISOString (t_replit clk)) (filter (loads fs) topics))
            (aggregateDoc (lit ''# Replit AI Instructions'') core ?v
               (toISOString (t_replit clk')) (filter (loads fs) topics))"
      by (rule aggregateDoc_same_but_timestamp)+
    then show ?thesis using a b by (simp add: v)
  qed
qed

lemma fold_writes_other:
  "p \<notin> fst ` set ws \<Longrightarrow> fold (\<lambda>(p, c) f. f(p \<mapsto> c)) ws fs p = fs p"
  by (induction ws arbitrary: fs) (auto split: prod.splits)

lemma mainFor_reads:
  assumes ai: "fs AI_INSTRUCTIONS_FILE = fs' AI_INSTRUCTIONS_FILE"
    and rules: "\<And>t. t \<in> set topics \<Longrightarrow>
      fs (path_join RULES_DIR (file_name t)) = fs' (path_join RULES_DIR (file_name t))"
  shows "fst (mainFor topics fs clk) = fst (mainFor topics fs' clk) \<and>
         written (snd (mainFor topics fs clk)) = written (snd (mainFor topics fs' clk))"
proof (cases "fs AI_INSTRUCTIONS_FILE = None \<or> fs AI_INSTRUCTIONS_FILE = Some []")
  case True
  then show ?thesis
    using ai mainFor_unreadable [where fs = fs and topics = topics and clk = clk]
      mainFor_unreadable [where fs = fs' and topics = topics and clk = clk]
    by simp
next
  case False
  then obtain doc where doc: "fs AI_INSTRUCTIONS_FILE = Some doc" "doc \<noteq> []" by auto
  have doc': "fs' AI_INSTRUCTIONS_FILE = Some doc" using ai doc by simp
  have lf: "filter (loads fs) topics = filter (loads fs') topics"
    using rules by (intro filter_cong) (auto simp: loads_def)
  have mf: "List.map_filter (topicFile fs) topics = List.map_filter (topicFile fs') topics"
  proof -
    have "topicFile fs t = topicFile fs' t" if "t \<in> set topics" for t
      using rules [OF that] by (simp add: topicFile_def)
    then show ?thesis
      unfolding List.map_filter_def
      by (metis (mono_tags, lifting) filter_cong map_eq_conv comp_apply mem_Collect_eq set_filter)
  qed
  show ?thesis
  proof (cases "extractCoreStandards doc")
    case (Inl e)
    from doc doc' Inl
      mainFor_malformed [where fs = fs and doc = doc and e = e and topics = topics and clk = clk]
      mainFor_malformed [where fs = fs' and doc = doc and e = e and topics = topics and clk = clk]
    show ?thesis by simp
  next
    case (Inr core)
    from doc doc' Inr
      mainFor_success [where fs = fs and doc = doc and core = core and topics = topics
        and clk = clk]
      mainFor_success [where fs = fs' and doc = doc and core = core and topics = topics
        and clk = clk]
    show ?thesis by (simp add: lf mf)
  qed
qed

lemma written_paths_head:
  "p \<in> fst ` set (written (snd (mainFor topics fs clk))) \<Longrightarrow> hd p = 0x2E \<or> hd p = 0x72"
proof (cases "fs AI_INSTRUCTIONS_FILE = None \<or> fs AI_INSTRUCTIONS_FILE = Some []")
  case True
  assume "p \<in> fst ` set (written (snd (mainFor topics fs clk)))"
  with True mainFor_unreadable [where fs = fs and topics = topics and clk = clk]
  show ?thesis by simp
next
  case False
  assume p: "p \<in> fst ` set (written (snd (mainFor topics fs clk)))"
  from False obtain doc where doc: "fs AI_INSTRUCTIONS_FILE = Some doc" "doc \<noteq> []" by auto
  show ?thesis
  proof (cases "extractCoreStandards doc")
    case (Inl e)
    from doc Inl p
      mainFor_malformed [where fs = fs and doc = doc and e = e and topics = topics and clk = clk]
    show ?thesis by simp
  next
    case (Inr core)
    have "map fst (written (snd (mainFor topics fs clk))) =
          [COPILOT_FILE, REPLIT_FILE, path_join CURSOR_RULES_DIR (lit ''project-standards.mdc'')]
          @ map (\<lambda>t. path_join CURSOR_RULES_DIR (key t @ lit ''.mdc'')) (filter (loads fs) topics)"
      using doc Inr mainFor_success [where fs = fs and doc = doc and core = core
          and topics = topics and clk = clk] topicFiles_paths [of fs topics]
      by simp
    then have "p \<in> set ([COPILOT_FILE, REPLIT_FILE,
                 path_join CURSOR_RULES_DIR (lit ''project-standards.mdc'')]
          @ map (\<lambda>t. path_join CURSOR_RULES_DIR (key t @ lit ''.mdc'')) (filter (loads fs) topics))"
      using p by (metis set_map)
    then show ?thesis
      by (auto simp: COPILOT_FILE_def REPLIT_FILE_def CURSOR_RULES_DIR_def path_join_def lit_def)
  qed
qed

lemma read_paths_head:
  "hd AI_INSTRUCTIONS_FILE = 0x41" "hd (path_join RULES_DIR f) = 0x64"
  by (simp_all add: AI_INSTRUCTIONS_FILE_def RULES_DIR_def path_join_def lit_def)

lemma after_run_reads:
  "after_run fs (snd (mainFor topics fs clk)) AI_INSTRUCTIONS_FILE = fs AI_INSTRUCTIONS_FILE"
  "after_run fs (snd (mainFor topics fs clk)) (path_join RULES_DIR f) = fs (path_join RULES_DIR f)"
proof -
  have "AI_INSTRUCTIONS_FILE \<notin> fst ` set (written (snd (mainFor topics fs clk)))"
    using written_paths_head [of AI_INSTRUCTIONS_FILE topics fs clk] read_paths_head(1) by auto
  then show "after_run fs (snd (mainFor topics fs clk)) AI_INSTRUCTIONS_FILE = fs AI_INSTRUCTIONS_FILE"
    unfolding after_run_def by (rule fold_writes_other)
  have "path_join RULES_DIR f \<notin> fst ` set (written (snd (mainFor topics fs clk)))"
    using written_paths_head [of "path_join RULES_DIR f" topics fs clk] read_paths_head(2) [of f]
    by auto
  then show "after_run fs (snd (mainFor topics fs clk)) (path_join RULES_DIR f) =
             fs (path_join RULES_DIR f)"
    unfolding after_run_def by (rule fold_writes_other)
qed

lemma second_run_same_inputs:
  "fst (mainFor topics (after_run fs (snd (mainFor topics fs clk))) clk') =
     fst (mainFor topics fs clk') \<and>
   written (snd (mainFor topics (after_run fs (snd (mainFor topics fs clk))) clk')) =
     written (snd (mainFor topics fs clk'))"
  by (rule mainFor_reads) (simp_all add: after_run_reads)

text \<open>
  Claim C8. Two runs on the same input files, whatever their clocks read, end with the
  same exit code and write the same files in the same order: either both write
  nothing, or the Copilot file and the Replit file of the two runs differ at most in
  the time printed behind \<open>Last Updated\<close>, and every other file (the Cursor main file
  and the per-topic files) is equal in both runs. The same holds when the second run
  starts on the file system that the first run has left behind, since no file that is
  written is a file that is read. The statement holds for every topic table, so for
  \<open>RULE_FILES\<close>.
\<close>

theorem rerun_same_output:
  "(fst (mainFor topics fs clk) = fst (mainFor topics fs clk') \<and>
    (written (snd (mainFor topics fs clk)) = [] \<and> written (snd (mainFor topics fs clk')) = [] \<or>
     (\<exists>c1 c1' c2 c2' rest.
        written (snd (mainFor topics fs clk)) = (COPILOT_FILE, c1) # (REPLIT_FILE, c2) # rest \<and>
        written (snd (mainFor topics fs clk')) = (COPILOT_FILE, c1') # (REPLIT_FILE, c2') # rest \<and>
        same_but_timestamp c1 c1' \<and> same_but_timestamp c2 c2'))) \<and>
   (fst (mainFor topics fs clk) =
      fst (mainFor topics (after_run fs (snd (mainFor topics fs clk))) clk') \<and>
    (written (snd (mainFor topics fs clk)) = [] \<and>
     written (snd (mainFor topics (after_run fs (snd (mainFor topics fs clk))) clk')) = [] \<or>
     (\<exists>c1 c1' c2 c2' rest.
        written (snd (mainFor topics fs clk)) = (COPILOT_FILE, c1) # (REPLIT_FILE, c2) # rest \<and>
        written (snd (mainFor topics (after_run fs (snd (mainFor topics fs clk))) clk')) =
          (COPILOT_FILE, c1') # (REPLIT_FILE, c2') # rest \<and>
        same_but_timestamp c1 c1' \<and> same_but_timestamp c2 c2')))"
  using rerun_same_files [of topics fs clk clk'] second_run_same_inputs [of topics fs clk clk']
  by simp

lemma console_log [simp]: "console (log e r) = console r @ [e]"
  by (simp add: log_def)

lemma console_writeFile [simp]: "console (writeFile p c r) = console r @ [Generated p]"
  by (simp add: writeFile_def)

lemma loadRules_console_mono:
  "set (console r) \<subseteq> set (console (snd (loadRules fs topics r)))"
proof (induction topics arbitrary: r)
  case Nil
  then show ?case by simp
next
  case (Cons t ts)
  obtain v r1 where rf: "readFile fs (path_join RULES_DIR (file_name t)) r = (v, r1)"
    by (cases "readFile fs (path_join RULES_DIR (file_name t)) r")
  then have r1: "set (console r) \<subseteq> set (console r1)"
    by (auto simp: readFile_def split: option.splits)
  show ?case
  proof (cases "truthy v")
    case True
    have "set (console (log (ReadRule (name t)) r1))
          \<subseteq> set (console (snd (loadRules fs ts (log (ReadRule (name t)) r1))))"
      by (rule Cons.IH)
    with r1 True rf show ?thesis
      by (auto simp: Let_def split: prod.splits)
  next
    case False
    have "set (console (log (SkippedRule (name t)) r1))
          \<subseteq> set (console (snd (loadRules fs ts (log (SkippedRule (name t)) r1))))"
      by (rule Cons.IH)
    with r1 False rf show ?thesis
      by (auto simp: Let_def split: prod.splits)
  qed
qed

lemma loadRules_skipped:
  "t \<in> set topics \<Longrightarrow> \<not> loads fs t \<Longrightarrow>
   SkippedRule (name t) \<in> set (console (snd (loadRules fs topics r)))"
proof (induction topics arbitrary: r)
  case Nil
  then show ?case by simp
next
  case (Cons a ts)
  obtain v r1 where rf: "readFile fs (path_join RULES_DIR (file_name a)) r = (v, r1)"
    by (cases "readFile fs (path_join RULES_DIR (file_name a)) r")
  then have v: "v = fs (path_join RULES_DIR (file_name a))"
    by (auto simp: readFile_def split: option.splits)
  show ?case
  proof (cases "t = a")
    case True
    with Cons.prems v have nv: "\<not> truthy v" by (simp add: loads_def)
    have "SkippedRule (name a) \<in> set (console (log (SkippedRule (name a)) r1))" by simp
    then have "SkippedRule (name a)
               \<in> set (console (snd (loadRules fs ts (log (SkippedRule (name a)) r1))))"
      using loadRules_console_mono by blast
    with nv rf True show ?thesis by (simp add: Let_def)
  next
    case False
    with Cons.prems have "t \<in> set ts" by simp
    note ih = Cons.IH [OF this Cons.prems(2)]
    show ?thesis
    proof (cases "truthy v")
      case True
      obtain rs r2 where l: "loadRules fs ts (log (ReadRule (name a)) r1) = (rs, r2)"
        by (cases "loadRules fs ts (log (ReadRule (name a)) r1)")
      from ih [of "log (ReadRule (name a)) r1"] l True rf show ?thesis
        by (simp add: Let_def)
    next
      case False
      from ih [of "log (SkippedRule (name a)) r1"] False rf show ?thesis
        by (simp add: Let_def)
    qed
  qed
qed

lemma writeRuleFiles_console_mono:
  "set (console r) \<subseteq> set (console (snd (writeRuleFiles rules r)))"
proof (induction rules arbitrary: r)
  case Nil
  then show ?case by simp
next
  case (Cons a rules)
  show ?case
  proof (cases "content a")
    case None
    then show ?thesis by simp
  next
    case (Some c)
    let ?r = "writeFile (path_join CURSOR_RULES_DIR (key a @ lit ''.mdc''))
                (generateMdcContent c (name a)
                   (name a @ lit '' rules for React TypeScript development'')) r"
    have "set (console ?r) \<subseteq> set (console (snd (writeRuleFiles rules ?r)))"
      by (rule Cons.IH)
    then show ?thesis using Some by (auto simp: Let_def)
  qed
qed

lemma mainFor_skipped:
  assumes "fs AI_INSTRUCTIONS_FILE = Some doc" and "doc \<noteq> []"
    and "extractCoreStandards doc = Inr core"
    and "t \<in> set topics" and "\<not> loads fs t"
  shows "SkippedRule (name t) \<in> set (console (snd (mainFor topics fs clk)))"
proof -
  define r3 where
    "r3 = log ExtractedCore
            (log (VersionInfo (version (extractMetadata doc (t_metadata clk)))
                    (lastUpdated (extractMetadata doc (t_metadata clk))))
               (log Starting \<lparr>console = [], written = []\<rparr>))"
  obtain rules r4 where l: "loadRules fs topics r3 = (rules, r4)" by (cases "loadRules fs topics r3")
  have s4: "SkippedRule (name t) \<in> set (console r4)"
    using loadRules_skipped [OF assms(4,5), of r3] l by simp
  define r8 where
    "r8 = log (Generating CursorIndividual)
           (writeFile (path_join CURSOR_RULES_DIR (lit ''project-standards.mdc''))
            (generateCursorMainRules core rules (extractMetadata doc (t_metadata clk)))
            (log (Generating CursorMain)
               (writeFile REPLIT_FILE
                  (generateReplitInstructions core rules (extractMetadata doc (t_metadata clk))
                     (t_replit clk))
                  (log (Generating Replit)
                     (writeFile COPILOT_FILE
                        (generateCopilotInstructions core rules
                           (extractMetadata doc (t_metadata clk)) (t_copilot clk))
                        (log (Generating Copilot) (log (LoadedCount (length rules)) r4)))))))"
  have s8: "SkippedRule (name t) \<in> set (console r8)" using s4 by (simp add: r8_def)
  obtain c r9 where wr: "writeRuleFiles rules r8 = (c, r9)" by (cases "writeRuleFiles rules r8")
  have s9: "SkippedRule (name t) \<in> set (console r9)"
    using writeRuleFiles_console_mono [of r8 rules] s8 wr by auto
  have "syncRulesFor topics fs clk =
        (case c of Returned \<Rightarrow> (Returned, log (Completed (length rules)) r9) | _ \<Rightarrow> (c, r9))"
    using assms(1-3) l wr
    by (simp add: syncRulesFor_def readFile_def Let_def r3_def r8_def split: control.splits)
  then show ?thesis using s9
    by (cases c) (simp_all add: mainFor_def)
qed

lemma not_truthy_iff: "\<not> truthy v \<longleftrightarrow> v = None \<or> v = Some []"
  by (auto simp: truthy_def split: option.splits)

lemma mainFor_cong:
  assumes same: "\<And>p. truthy (fs p) \<or> truthy (fs' p) \<Longrightarrow> fs p = fs' p"
  shows "fst (mainFor topics fs clk) = fst (mainFor topics fs' clk) \<and>
         written (snd (mainFor topics fs clk)) = written (snd (mainFor topics fs' clk))"
proof (cases "truthy (fs AI_INSTRUCTIONS_FILE)")
  case False
  then have "\<not> truthy (fs' AI_INSTRUCTIONS_FILE)"
    using same [of AI_INSTRUCTIONS_FILE] by (cases "truthy (fs' AI_INSTRUCTIONS_FILE)") simp_all
  with False have "fs AI_INSTRUCTIONS_FILE = None \<or> fs AI_INSTRUCTIONS_FILE = Some []"
    and "fs' AI_INSTRUCTIONS_FILE = None \<or> fs' AI_INSTRUCTIONS_FILE = Some []"
    by (simp_all add: not_truthy_iff)
  then show ?thesis
    using mainFor_unreadable [where fs = fs and topics = topics and clk = clk]
      mainFor_unreadable [where fs = fs' and topics = topics and clk = clk]
    by simp
next
  case True
  then obtain doc where doc: "fs AI_INSTRUCTIONS_FILE = Some doc" "doc \<noteq> []"
    by (auto simp: truthy_def split: option.splits)
  have doc': "fs' AI_INSTRUCTIONS_FILE = Some doc" using same [of AI_INSTRUCTIONS_FILE] True doc by simp
  have l: "loads fs t = loads fs' t" for t
    using same [of "path_join RULES_DIR (file_name t)"] by (auto simp: loads_def)
  have tf: "topicFile fs t = topicFile fs' t" for t
  proof (cases "loads fs t")
    case True
    then have "fs (path_join RULES_DIR (file_name t)) = fs' (path_join RULES_DIR (file_name t))"
      using same by (simp add: loads_def)
    then show ?thesis by (simp add: topicFile_def)
  next
    case False
    then show ?thesis using l [of t] topicFile_None_iff [of fs t] topicFile_None_iff [of fs' t]
      by simp
  qed
  have lf: "filter (loads fs) topics = filter (loads fs') topics"
    using l by (rule_tac filter_cong) auto
  have mf: "List.map_filter (topicFile fs) topics = List.map_filter (topicFile fs') topics"
    using tf by (simp add: List.map_filter_def)
  show ?thesis
  proof (cases "extractCoreStandards doc")
    case (Inl e)
    from doc doc' Inl
      mainFor_malformed [where fs = fs and doc = doc and e = e and topics = topics and clk = clk]
      mainFor_malformed [where fs = fs' and doc = doc and e = e and topics = topics and clk = clk]
    show ?thesis by simp
  next
    case (Inr core)
    from doc doc' Inr
      mainFor_success [where fs = fs and doc = doc and core = core and topics = topics
        and clk = clk]
      mainFor_success [where fs = fs' and doc = doc and core = core and topics = topics
        and clk = clk]
    show ?thesis by (simp add: lf mf)
  qed
qed

text \<open>
  Claim C9. A run over a file system in which the file at a path is empty has the same
  exit code and writes the same files as the run in which that file cannot be read.
  With an empty instructions file the run prints the failed-to-read error last, exits
  with code 1 and writes nothing. With an empty file for a topic of the table (and a
  valid canonical document) the topic is not among the loaded topics, the run prints
  that it skipped the topic, exits with code 0, and the lists of the three aggregate
  files and the per-topic files are those of the loaded topics.
\<close>

theorem empty_file_like_missing:
  "fst (mainFor topics (fs(p \<mapsto> [])) clk) = fst (mainFor topics (fs(p := None)) clk) \<and>
   written (snd (mainFor topics (fs(p \<mapsto> [])) clk)) =
     written (snd (mainFor topics (fs(p := None)) clk)) \<and>
   fst (mainFor topics (fs(AI_INSTRUCTIONS_FILE \<mapsto> [])) clk) = 1 \<and>
   written (snd (mainFor topics (fs(AI_INSTRUCTIONS_FILE \<mapsto> [])) clk)) = [] \<and>
   last (console (snd (mainFor topics (fs(AI_INSTRUCTIONS_FILE \<mapsto> [])) clk))) =
     FailedToReadInstructions \<and>
   (t \<in> set topics \<and>
    (fs(path_join RULES_DIR (file_name t) \<mapsto> [])) AI_INSTRUCTIONS_FILE = Some doc \<and>
    doc \<noteq> [] \<and> extractCoreStandards doc = Inr core \<longrightarrow>
      t \<notin> set (filter (loads (fs(path_join RULES_DIR (file_name t) \<mapsto> []))) topics) \<and>
      SkippedRule (name t)
        \<in> set (console (snd (mainFor topics (fs(path_join RULES_DIR (file_name t) \<mapsto> [])) clk))) \<and>
      fst (mainFor topics (fs(path_join RULES_DIR (file_name t) \<mapsto> [])) clk) = 0 \<and>
      written (snd (mainFor topics (fs(path_join RULES_DIR (file_name t) \<mapsto> [])) clk)) =
        [(COPILOT_FILE,
          aggregateDoc (lit ''# GitHub Copilot Instructions'') core
            (version (extractMetadata doc (t_metadata clk))) (toISOString (t_copilot clk))
            (filter (loads (fs(path_join RULES_DIR (file_name t) \<mapsto> []))) topics)),
         (REPLIT_FILE,
          aggregateDoc (lit ''# Replit AI Instructions'') core
            (version (extractMetadata doc (t_metadata clk))) (toISOString (t_replit clk))
            (filter (loads (fs(path_join RULES_DIR (file_name t) \<mapsto> []))) topics)),
         (path_join CURSOR_RULES_DIR (lit ''project-standards.mdc''),
          cursorDoc core (filter (loads (fs(path_join RULES_DIR (file_name t) \<mapsto> []))) topics))]
        @ List.map_filter (topicFile (fs(path_join RULES_DIR (file_name t) \<mapsto> []))) topics \<and>
      map fst (List.map_filter (topicFile (fs(path_join RULES_DIR (file_name t) \<mapsto> []))) topics) =
        map (\<lambda>t. path_join CURSOR_RULES_DIR (key t @ lit ''.mdc''))
          (filter (loads (fs(path_join RULES_DIR (file_name t) \<mapsto> []))) topics))"
proof -
  have "truthy ((fs(p \<mapsto> [])) q) \<or> truthy ((fs(p := None)) q) \<Longrightarrow>
        (fs(p \<mapsto> [])) q = (fs(p := None)) q" for q
    by (cases "q = p") (simp_all add: truthy_def)
  then have a: "fst (mainFor topics (fs(p \<mapsto> [])) clk) = fst (mainFor topics (fs(p := None)) clk) \<and>
     written (snd (mainFor topics (fs(p \<mapsto> [])) clk)) =
     written (snd (mainFor topics (fs(p := None)) clk))"
    by (rule mainFor_cong)
  have b: "fst (mainFor topics (fs(AI_INSTRUCTIONS_FILE \<mapsto> [])) clk) = 1 \<and>
     written (snd (mainFor topics (fs(AI_INSTRUCTIONS_FILE \<mapsto> [])) clk)) = [] \<and>
     last (console (snd (mainFor topics (fs(AI_INSTRUCTIONS_FILE \<mapsto> [])) clk))) =
       FailedToReadInstructions"
    using mainFor_unreadable [where fs = "fs(AI_INSTRUCTIONS_FILE \<mapsto> [])" and topics = topics
        and clk = clk] by simp
  let ?fs = "fs(path_join RULES_DIR (file_name t) \<mapsto> [])"
  have n: "\<not> loads ?fs t" by (simp add: loads_def truthy_def)
  have c: "SkippedRule (name t) \<in> set (console (snd (mainFor topics ?fs clk))) \<and>
      fst (mainFor topics ?fs clk) = 0 \<and>
      written (snd (mainFor topics ?fs clk)) =
        [(COPILOT_FILE,
          aggregateDoc (lit ''# GitHub Copilot Instructions'') core
            (version (extractMetadata doc (t_metadata clk))) (toISOString (t_copilot clk))
            (filter (loads ?fs) topics)),
         (REPLIT_FILE,
          aggregateDoc (lit ''# Replit AI Instructions'') core
            (version (extractMetadata doc (t_metadata clk))) (toISOString (t_replit clk))
            (filter (loads ?fs) topics)),
         (path_join CURSOR_RULES_DIR (lit ''project-standards.mdc''),
          cursorDoc core (filter (loads ?fs) topics))]
        @ List.map_filter (topicFile ?fs) topics"
    if "t \<in> set topics" "?fs AI_INSTRUCTIONS_FILE = Some doc" "doc \<noteq> []"
      "extractCoreStandards doc = Inr core"
    using that n
      mainFor_success [where fs = ?fs and doc = doc and core = core and topics = topics
        and clk = clk]
      mainFor_skipped [where fs = ?fs and doc = doc and core = core and topics = topics
        and clk = clk and t = t]
    by simp
  show ?thesis
    using a b c n topicFiles_paths [of ?fs topics] by simp
qed

lemma emptied_fs_doc:
  "(example_fs(path_join RULES_DIR (lit ''testing.md'') \<mapsto> [])) AI_INSTRUCTIONS_FILE =
   Some example_doc"
  by (simp add: example_fs_def AI_INSTRUCTIONS_FILE_def RULES_DIR_def path_join_def lit_def)

lemma emptied_fs_loads:
  "filter (loads (example_fs(path_join RULES_DIR (lit ''testing.md'') \<mapsto> []))) example_topics =
   [\<lparr>file_name = lit ''folder-structure.md'', name = lit ''Folder Structure'',
      key = lit ''folder-structure''\<rparr>]"
  by (simp add: loads_def truthy_def example_fs_def example_topics_def AI_INSTRUCTIONS_FILE_def
      RULES_DIR_def path_join_def lit_def)

text \<open>
  The theorem of C9 at the example file system with the file of the topic Testing
  emptied, and with the instructions file emptied.
\<close>

theorem empty_file_like_missing_witness:
  "\<lparr>file_name = lit ''testing.md'', name = lit ''Testing'', key = lit ''testing''\<rparr>
     \<in> set example_topics \<and>
   (example_fs(path_join RULES_DIR (lit ''testing.md'') \<mapsto> [])) AI_INSTRUCTIONS_FILE =
     Some example_doc \<and>
   example_doc \<noteq> [] \<and>
   extractCoreStandards example_doc = Inr (lit ''core text'') \<and>
   fst (mainFor example_topics
          (example_fs(path_join RULES_DIR (lit ''testing.md'') \<mapsto> [])) example_clock) = 0 \<and>
   map fst (written (snd (mainFor example_topics
          (example_fs(path_join RULES_DIR (lit ''testing.md'') \<mapsto> [])) example_clock))) =
     [COPILOT_FILE, REPLIT_FILE, path_join CURSOR_RULES_DIR (lit ''project-standards.mdc''),
      path_join CURSOR_RULES_DIR (lit ''folder-structure.mdc'')] \<and>
   SkippedRule (lit ''Testing'')
     \<in> set (console (snd (mainFor example_topics
          (example_fs(path_join RULES_DIR (lit ''testing.md'') \<mapsto> [])) example_clock))) \<and>
   fst (mainFor example_topics (example_fs(AI_INSTRUCTIONS_FILE \<mapsto> [])) example_clock) = 1"
proof -
  let ?t = "\<lparr>file_name = lit ''testing.md'', name = lit ''Testing'', key = lit ''testing''\<rparr>"
  have m: "?t \<in> set example_topics" by (simp add: example_topics_def)
  have k: "lit ''folder-structure'' @ lit ''.mdc'' = lit ''folder-structure.mdc''"
    by (simp add: lit_def)
  show ?thesis
    using empty_file_like_missing [where fs = example_fs and topics = example_topics
        and t = ?t and p = AI_INSTRUCTIONS_FILE and doc = example_doc
        and core = "lit ''core text''" and clk = example_clock]
      m emptied_fs_doc example_doc_ne example_doc_core
    by (simp add: emptied_fs_loads k)
qed

end
